theory Spec2Isabelle
  imports Main "HOL-Library.Char_ord" "HOL-Library.List_Lexorder"
begin

section \<open>Results and the progress tracker\<close>

text \<open>
  \<^verbatim>\<open>batch_download.py\<close> passes the outcome of one scene around as a dictionary with
  the keys \<^verbatim>\<open>video_id\<close>, \<^verbatim>\<open>success\<close>, \<^verbatim>\<open>error\<close>, \<^verbatim>\<open>phase\<close> and (sometimes)
  \<^verbatim>\<open>reason\<close>. The phase stays a string, as in the source, because
  \<^verbatim>\<open>ProgressTracker.update\<close> has a branch for every phase it does not know; a key that
  may be absent is an option. The error text is either a literal of the source or
  \<^verbatim>\<open>str(e)\<close> of a caught exception.
\<close>

datatype exn =
    FileNotFoundError
  | NotADirectoryError
  | IsADirectoryError
  | ValueError string
  | OtherError string

datatype error_text = Literal string | Str_of exn

record result =
  video_id :: string
  success :: bool
  error :: "error_text option"
  phase :: "string option"
  reason :: "string option"

text \<open>
  The counters of \<^verbatim>\<open>ProgressTracker\<close>. The time stamps, the display thread and the
  logger only feed the progress display and are left out; the lock makes each
  \<^verbatim>\<open>update\<close> atomic, so an update is one function application.
\<close>

record progress_tracker =
  total_scenes :: nat
  completed :: nat
  success_count :: nat
  skipped_count :: nat
  failed_downloads :: "string list"
  failed_processing :: "string list"
  successful_scenes :: "(string \<times> string) list"

definition init_tracker :: "nat \<Rightarrow> progress_tracker" where
  "init_tracker n =
     \<lparr>total_scenes = n, completed = 0, success_count = 0, skipped_count = 0,
      failed_downloads = [], failed_processing = [], successful_scenes = []\<rparr>"

text \<open>\<^verbatim>\<open>result.get('phase', 'unknown')\<close>\<close>

definition get_phase :: "result \<Rightarrow> string" where
  "get_phase r = (case phase r of None \<Rightarrow> ''unknown'' | Some p \<Rightarrow> p)"

definition skip_phases :: "string list" where
  "skip_phases = [''skipped'', ''skipped_no_highres'', ''removed_no_highres'']"

definition removal_phases :: "string list" where
  "removal_phases =
     [''removed'', ''removed_missing_intrinsics'', ''redownload_failed'', ''removal_failed'']"

text \<open>
  \<^verbatim>\<open>if split:\<close> holds for a split that is neither \<^verbatim>\<open>None\<close> nor the empty string.
\<close>

definition update :: "progress_tracker \<Rightarrow> result \<Rightarrow> string option \<Rightarrow> progress_tracker" where
  "update t r split =
     (let t1 = t\<lparr>completed := completed t + 1\<rparr>;
          ph = get_phase r;
          vid = video_id r
      in if success r then
           (if ph \<in> set skip_phases then t1\<lparr>skipped_count := skipped_count t1 + 1\<rparr>
            else
              (let t2 = t1\<lparr>success_count := success_count t1 + 1\<rparr>
               in case split of
                    None \<Rightarrow> t2
                  | Some s \<Rightarrow>
                      if s \<noteq> [] then t2\<lparr>successful_scenes := successful_scenes t2 @ [(vid, s)]\<rparr>
                      else t2))
         else
           (if ph \<in> set removal_phases then
              t1\<lparr>failed_processing := failed_processing t1 @ [vid @ '' ('' @ ph @ '')'']\<rparr>
            else if ph = ''download'' then
              t1\<lparr>failed_downloads := failed_downloads t1 @ [vid]\<rparr>
            else
              t1\<lparr>failed_processing := failed_processing t1 @ [vid]\<rparr>))"

text \<open>A wave feeds its results to one tracker, one \<^verbatim>\<open>update\<close> after the other.\<close>

definition update_all :: "progress_tracker \<Rightarrow> (result \<times> string option) list \<Rightarrow> progress_tracker" where
  "update_all t rs = foldl (\<lambda>t (r, s). update t r s) t rs"

definition accounted :: "progress_tracker \<Rightarrow> nat" where
  "accounted t =
     success_count t + skipped_count t + length (failed_downloads t) + length (failed_processing t)"


section \<open>Strings and file names\<close>

text \<open>\<^verbatim>\<open>sep.join(xs)\<close>\<close>

fun join :: "string \<Rightarrow> string list \<Rightarrow> string" where
  "join sep [] = []"
| "join sep [x] = x"
| "join sep (x # y # ys) = x @ sep @ join sep (y # ys)"

text \<open>The decimal text of a number, as an f-string prints \<^verbatim>\<open>len(files)\<close>.\<close>

definition digit :: "nat \<Rightarrow> char" where
  "digit d = ''0123456789'' ! d"

fun str_nat :: "nat \<Rightarrow> string" where
  "str_nat n = (if n < 10 then [digit n] else str_nat (n div 10) @ [digit (n mod 10)])"

declare str_nat.simps [simp del]

text \<open>\<^verbatim>\<open>str.lower\<close>, on the letters that decide a comparison with \<^verbatim>\<open>'true'\<close>.\<close>

definition lower_char :: "char \<Rightarrow> char" where
  "lower_char c =
     (case map_of (zip ''ABCDEFGHIJKLMNOPQRSTUVWXYZ'' ''abcdefghijklmnopqrstuvwxyz'') c of
        None \<Rightarrow> c
      | Some l \<Rightarrow> l)"

definition lower :: "string \<Rightarrow> string" where
  "lower s = map lower_char s"

text \<open>
  A name matches the pattern \<^verbatim>\<open>*.png\<close> of \<^verbatim>\<open>Path.glob\<close> when it ends with
  \<^verbatim>\<open>.png\<close>.
\<close>

definition ends_with :: "string \<Rightarrow> string \<Rightarrow> bool" where
  "ends_with ext name \<longleftrightarrow>
     length ext \<le> length name \<and> drop (length name - length ext) name = ext"

text \<open>
  \<^verbatim>\<open>PurePath.suffix\<close> and \<^verbatim>\<open>PurePath.stem\<close> cut a name at its last dot, unless that
  dot is the first or the last character of the name.
\<close>

definition rfind :: "char \<Rightarrow> string \<Rightarrow> nat option" where
  "rfind c s =
     (if c \<in> set s then Some (length s - 1 - length (takeWhile (\<lambda>x. x \<noteq> c) (rev s)))
      else None)"

definition suffix_of :: "string \<Rightarrow> string" where
  "suffix_of name =
     (case rfind (CHR ''.'') name of
        None \<Rightarrow> []
      | Some i \<Rightarrow> if 0 < i \<and> i + 1 < length name then drop i name else [])"

definition stem :: "string \<Rightarrow> string" where
  "stem name =
     (case rfind (CHR ''.'') name of
        None \<Rightarrow> name
      | Some i \<Rightarrow> if 0 < i \<and> i + 1 < length name then take i name else name)"

section \<open>The local copy of a scene\<close>

text \<open>
  The directory \<^verbatim>\<open>download_dir/raw/<split>/<video_id>\<close> of a scene is either absent
  or a list of entries in the order in which the file system lists them; the names of
  one directory are distinct. An entry is a regular file or a sub-directory. What the
  code reads of a regular file is only what \<^verbatim>\<open>zipfile\<close> makes of it: it opens and
  tests fine, \<^verbatim>\<open>testzip\<close> names a bad member, opening raises \<^verbatim>\<open>BadZipFile\<close> or
  \<^verbatim>\<open>LargeZipFile\<close>, or opening raises something else. A sub-directory is the list of
  the names of its children, which are regular files (the asset directories of a scene
  are flat).
\<close>

datatype zip_test = ZipGood | ZipBadMember string | ZipInvalid | ZipRaises exn

datatype node = File zip_test | Dir "string list"

type_synonym scene = "(string \<times> node) list"

definition entries :: "scene option \<Rightarrow> scene" where
  "entries s = (case s of None \<Rightarrow> [] | Some es \<Rightarrow> es)"

text \<open>\<^verbatim>\<open>(scene_path / name)\<close>, and whether it exists.\<close>

definition lookup :: "scene option \<Rightarrow> string \<Rightarrow> node option" where
  "lookup s name = map_of (entries s) name"

definition exists_in :: "scene option \<Rightarrow> string \<Rightarrow> bool" where
  "exists_in s name \<longleftrightarrow> lookup s name \<noteq> None"

text \<open>\<^verbatim>\<open>path.glob('*' + ext)\<close>: nothing below a regular file.\<close>

definition glob :: "node \<Rightarrow> string \<Rightarrow> string list" where
  "glob nd ext = (case nd of File _ \<Rightarrow> [] | Dir cs \<Rightarrow> filter (ends_with ext) cs)"

text \<open>\<^verbatim>\<open>path.iterdir()\<close> raises on a regular file.\<close>

definition iterdir :: "node \<Rightarrow> exn + string list" where
  "iterdir nd = (case nd of File _ \<Rightarrow> Inl NotADirectoryError | Dir cs \<Rightarrow> Inr cs)"

text \<open>The file type each kept directory holds.\<close>

definition ext_of :: "string \<Rightarrow> string" where
  "ext_of dir_name = (if dir_name = ''ultrawide_intrinsics'' then ''.pincam'' else ''.png'')"

section \<open>The metadata catalog\<close>

text \<open>
  \<^verbatim>\<open>download_dir/raw/metadata.csv\<close> is absent, or cannot be opened or decoded, or is
  a list of rows as \<^verbatim>\<open>csv.DictReader\<close> yields them: a row maps each column of the
  header to a string, or to \<^verbatim>\<open>None\<close> where the line is too short.
\<close>

type_synonym csv_row = "(string \<times> string option) list"

datatype metadata = No_metadata | Unreadable | Rows "csv_row list"

text \<open>
  The loop over the rows. A missing column raises \<^verbatim>\<open>KeyError\<close>, \<^verbatim>\<open>None.lower()\<close>
  raises \<^verbatim>\<open>AttributeError\<close>; the \<^verbatim>\<open>except Exception\<close> around the loop turns both
  into \<^verbatim>\<open>False\<close>.
\<close>

fun scan_rows :: "csv_row list \<Rightarrow> string \<Rightarrow> bool" where
  "scan_rows [] vid = False"
| "scan_rows (row # rows) vid =
     (case map_of row ''video_id'' of
        None \<Rightarrow> False
      | Some v \<Rightarrow>
          if v = Some vid then
            (case map_of row ''is_in_upsampling'' of
               Some (Some u) \<Rightarrow> lower u = ''true''
             | _ \<Rightarrow> False)
          else scan_rows rows vid)"

definition has_highres_depth_available :: "metadata \<Rightarrow> string \<Rightarrow> bool" where
  "has_highres_depth_available md vid =
     (case md of
        No_metadata \<Rightarrow> True
      | Unreadable \<Rightarrow> False
      | Rows rows \<Rightarrow> scan_rows rows vid)"

section \<open>Validation and classification of a scene\<close>

datatype status = Complete | Missing_intrinsics | Missing_other | Corrupted

text \<open>
  \<^verbatim>\<open>expected_items\<close>: the three kept directories, then every other known asset of the
  request, in the order of the request.
\<close>

definition known_assets :: "string list" where
  "known_assets =
     [''confidence'', ''highres_depth'', ''ultrawide'', ''ultrawide_intrinsics'',
      ''vga_wide'', ''vga_wide_intrinsics'']"

definition expected_items :: "string list \<Rightarrow> string list" where
  "expected_items assets =
     foldl (\<lambda>items a. if a \<notin> set items \<and> a \<in> set known_assets then items @ [a] else items)
       [''highres_depth'', ''ultrawide'', ''ultrawide_intrinsics''] assets"

text \<open>What one expected item adds to \<^verbatim>\<open>missing_files\<close>.\<close>

definition missing_of :: "scene option \<Rightarrow> string \<Rightarrow> string list" where
  "missing_of s item =
     (case lookup s item of
        None \<Rightarrow> [item]
      | Some nd \<Rightarrow>
          if item \<in> set [''highres_depth'', ''ultrawide''] then
            (let n = length (glob nd ''.png'')
             in if n < 10 then [item @ '' (only '' @ str_nat n @ '' files)''] else [])
          else if item = ''ultrawide_intrinsics'' then
            (let n = length (glob nd ''.pincam'')
             in if n < 10 then [item @ '' (only '' @ str_nat n @ '' files)''] else [])
          else [])"

text \<open>
  The loop over \<^verbatim>\<open>scene_path.glob('*.zip')\<close>. Only \<^verbatim>\<open>BadZipFile\<close> and
  \<^verbatim>\<open>LargeZipFile\<close> are caught; a directory named like a zip file cannot be opened.
  A bad member with an empty name is falsy and passes \<^verbatim>\<open>if bad_file:\<close>.
\<close>

fun test_zips :: "scene \<Rightarrow> exn + string list" where
  "test_zips [] = Inr []"
| "test_zips ((name, nd) # rest) =
     (if ends_with ''.zip'' name then
        (case nd of
           Dir _ \<Rightarrow> Inl IsADirectoryError
         | File ZipGood \<Rightarrow> test_zips rest
         | File (ZipBadMember m) \<Rightarrow>
             (if m \<noteq> [] then
                (case test_zips rest of
                   Inl e \<Rightarrow> Inl e
                 | Inr cs \<Rightarrow> Inr ((name @ '' (bad file: '' @ m @ '')'') # cs))
              else test_zips rest)
         | File ZipInvalid \<Rightarrow>
             (case test_zips rest of Inl e \<Rightarrow> Inl e | Inr cs \<Rightarrow> Inr (name # cs))
         | File (ZipRaises e) \<Rightarrow> Inl e)
      else test_zips rest)"

text \<open>
  \<^verbatim>\<open>validate_scene_download\<close> returns the status with the lists \<^verbatim>\<open>corrupted_files\<close>
  and \<^verbatim>\<open>missing_files\<close> of its details dictionary (empty where the key is not set).
\<close>

definition validate_scene_download ::
    "scene option \<Rightarrow> string list \<Rightarrow> exn + (status \<times> string list \<times> string list)" where
  "validate_scene_download s assets =
     (let missing_files = concat (map (missing_of s) (expected_items assets))
      in case test_zips (entries s) of
           Inl e \<Rightarrow> Inl e
         | Inr corrupted_files \<Rightarrow>
             if corrupted_files \<noteq> [] then Inr (Corrupted, corrupted_files, missing_files)
             else if missing_files \<noteq> [] then
               (let has_depth = exists_in s ''highres_depth'';
                    has_wide = exists_in s ''ultrawide'';
                    missing_intrinsics = (''ultrawide_intrinsics'' \<in> set missing_files)
                in if has_depth \<and> has_wide \<and> missing_intrinsics \<and> length missing_files = 1
                   then Inr (Missing_intrinsics, [], missing_files)
                   else Inr (Missing_other, [], missing_files))
             else Inr (Complete, [], []))"

datatype action = Skip | Skip_no_highres | Redownload | Remove | Process

text \<open>
  The check whether subsampling has been applied: the first kept directory that exists
  and still holds more than 1000 files of its type.
\<close>

definition oversized :: "scene option \<Rightarrow> string option" where
  "oversized s =
     find (\<lambda>d. case lookup s d of
                 None \<Rightarrow> False
               | Some nd \<Rightarrow> length (glob nd (ext_of d)) > 1000)
       [''highres_depth'', ''ultrawide'', ''ultrawide_intrinsics'']"

text \<open>
  \<^verbatim>\<open>should_skip_scene\<close> reads the catalog and the scene directory; in place of
  \<^verbatim>\<open>download_dir\<close> and \<^verbatim>\<open>split\<close> it takes what it finds there.
\<close>

definition should_skip_scene ::
    "metadata \<Rightarrow> scene option \<Rightarrow> string \<Rightarrow> string list \<Rightarrow> int \<Rightarrow> exn + (action \<times> string)" where
  "should_skip_scene md s vid assets subsample_n =
     (if ''highres_depth'' \<in> set assets \<and> \<not> has_highres_depth_available md vid then
        (if s \<noteq> None then
           Inr (Remove, ''Scene doesn't have highres_depth available - will be removed'')
         else Inr (Skip_no_highres, ''Scene doesn't have highres_depth available''))
      else if s = None then Inr (Process, ''Scene directory doesn't exist'')
      else
        (case validate_scene_download s assets of
           Inl e \<Rightarrow> Inl e
         | Inr (st, corrupted_files, missing_files) \<Rightarrow>
             if st = Corrupted then
               Inr (Process, ''Corrupted files: '' @ join '', '' corrupted_files)
             else if st = Missing_intrinsics then
               Inr (Redownload, ''Has depth/wide but missing intrinsics - will redownload'')
             else if st = Missing_other then
               (if ''highres_depth'' \<in> set assets \<and> ''highres_depth'' \<in> set missing_files then
                  Inr (Remove, ''Scene missing required highres_depth - will be removed'')
                else Inr (Process, ''Missing: '' @ join '', '' missing_files))
             else if subsample_n > 1 then
               (case oversized s of
                  Some d \<Rightarrow> Inr (Process, ''Subsampling not applied to '' @ d)
                | None \<Rightarrow> Inr (Skip, ''Scene is complete''))
             else Inr (Skip, ''Scene is complete'')))"

section \<open>Cleaning and subsampling a scene directory\<close>

text \<open>
  The operations below change a scene directory, so they return the directory they leave
  behind next to their outcome, also when they raise. Deleting a file or a sub-directory
  of a scene always succeeds here.
\<close>

definition keep_dirs :: "string list" where
  "keep_dirs = [''highres_depth'', ''ultrawide'', ''ultrawide_intrinsics'']"

definition is_dir :: "node \<Rightarrow> bool" where
  "is_dir nd = (case nd of File _ \<Rightarrow> False | Dir _ \<Rightarrow> True)"

text \<open>Writing back the children that are left in the sub-directory \<open>name\<close>.\<close>

definition set_dir :: "scene \<Rightarrow> string \<Rightarrow> string list \<Rightarrow> scene" where
  "set_dir es name cs = map (\<lambda>(n, nd). if n = name then (n, Dir cs) else (n, nd)) es"

text \<open>
  \<^verbatim>\<open>file_sets[dir_name]\<close>, the stems of the files of the directory's type, and
  \<^verbatim>\<open>common_files\<close>, their intersection over the three kept directories.
\<close>

definition file_set :: "scene \<Rightarrow> string \<Rightarrow> string set" where
  "file_set es dir_name =
     (case map_of es dir_name of
        None \<Rightarrow> {}
      | Some nd \<Rightarrow> stem ` set (glob nd (ext_of dir_name)))"

definition common_files :: "scene \<Rightarrow> string set" where
  "common_files es = (\<Inter>d \<in> set keep_dirs. file_set es d)"

text \<open>
  The last loop of \<^verbatim>\<open>clean_scene_directories\<close>: in each kept directory, every file
  whose stem is not common is removed (in a dry run, only listed). The source iterates
  over a Python set of the three names, whose order is not fixed; the order of
  \<open>keep_dirs\<close> is taken here.
\<close>

fun remove_unmatched ::
    "string list \<Rightarrow> string set \<Rightarrow> bool \<Rightarrow> scene \<Rightarrow> (exn + unit) \<times> scene" where
  "remove_unmatched [] common execute es = (Inr (), es)"
| "remove_unmatched (d # ds) common execute es =
     (case map_of es d of
        None \<Rightarrow> (Inl FileNotFoundError, es)
      | Some nd \<Rightarrow>
          (case iterdir nd of
             Inl e \<Rightarrow> (Inl e, es)
           | Inr cs \<Rightarrow>
               remove_unmatched ds common execute
                 (if execute then set_dir es d (filter (\<lambda>c. stem c \<in> common) cs) else es)))"

definition clean_scene_directories :: "scene option \<Rightarrow> bool \<Rightarrow> (exn + bool) \<times> scene option" where
  "clean_scene_directories s execute =
     (case s of
        None \<Rightarrow> (Inl FileNotFoundError, None)
      | Some es \<Rightarrow>
          (let es1 = (if execute
                      then filter (\<lambda>(n, nd). \<not> (is_dir nd \<and> n \<notin> set keep_dirs)) es
                      else es);
               missing_dirs = filter (\<lambda>d. map_of es1 d = None) keep_dirs
           in if missing_dirs \<noteq> [] then (Inr False, Some es1)
              else
                (case remove_unmatched keep_dirs (common_files es1) execute es1 of
                   (Inl e, es2) \<Rightarrow> (Inl e, Some es2)
                 | (Inr _, es2) \<Rightarrow> (Inr True, Some es2))))"

text \<open>
  The slice \<^verbatim>\<open>xs[::n]\<close>: every \<open>n\<close>-th element from the front for a positive step,
  from the back for a negative one; a step of zero raises.
\<close>

fun every_nth :: "nat \<Rightarrow> 'a list \<Rightarrow> 'a list" where
  "every_nth n [] = []"
| "every_nth n (x # xs) = x # every_nth n (drop (n - 1) xs)"

definition slice_step :: "'a list \<Rightarrow> int \<Rightarrow> exn + 'a list" where
  "slice_step xs n =
     (if n = 0 then Inl (ValueError ''slice step cannot be zero'')
      else if n > 0 then Inr (every_nth (nat n) xs)
      else Inr (every_nth (nat (- n)) (rev xs)))"

text \<open>
  The body that \<^verbatim>\<open>subsample_scene_files\<close> runs on one directory: sort the files
  with the suffix \<open>ext\<close>, keep every \<open>n\<close>-th, unlink the others.
\<close>

definition subsample_dir ::
    "scene \<Rightarrow> string \<Rightarrow> string \<Rightarrow> int \<Rightarrow> bool \<Rightarrow> (exn + unit) \<times> scene" where
  "subsample_dir es dir_name ext n execute =
     (case map_of es dir_name of
        None \<Rightarrow> (Inr (), es)
      | Some nd \<Rightarrow>
          (case iterdir nd of
             Inl e \<Rightarrow> (Inl e, es)
           | Inr cs \<Rightarrow>
               (let files = sort (filter (\<lambda>f. suffix_of f = ext) cs)
                in case slice_step files n of
                     Inl e \<Rightarrow> (Inl e, es)
                   | Inr files_to_keep \<Rightarrow>
                       (let files_to_remove = filter (\<lambda>f. f \<notin> set files_to_keep) files
                        in (Inr (),
                            if execute
                            then set_dir es dir_name (filter (\<lambda>c. c \<notin> set files_to_remove) cs)
                            else es)))))"

definition subsample_scene_files ::
    "scene option \<Rightarrow> int \<Rightarrow> bool \<Rightarrow> (exn + bool) \<times> scene option" where
  "subsample_scene_files s subsample_n execute =
     (case s of
        None \<Rightarrow> (Inr True, None)
      | Some es \<Rightarrow>
          (case subsample_dir es ''highres_depth'' ''.png'' subsample_n execute of
             (Inl e, es1) \<Rightarrow> (Inl e, Some es1)
           | (Inr _, es1) \<Rightarrow>
               (case subsample_dir es1 ''ultrawide'' ''.png'' subsample_n execute of
                  (Inl e, es2) \<Rightarrow> (Inl e, Some es2)
                | (Inr _, es2) \<Rightarrow>
                    if map_of es2 ''ultrawide_intrinsics'' \<noteq> None \<and> subsample_n > 1 then
                      (case subsample_dir es2 ''ultrawide_intrinsics'' ''.pincam''
                              subsample_n execute of
                         (Inl e, es3) \<Rightarrow> (Inl e, Some es3)
                       | (Inr _, es3) \<Rightarrow> (Inr True, Some es3))
                    else (Inr True, Some es2))))"

definition run_clean_subsample ::
    "scene option \<Rightarrow> int \<Rightarrow> bool \<Rightarrow> (exn + bool) \<times> scene option" where
  "run_clean_subsample s subsample_n execute =
     (case clean_scene_directories s execute of
        (Inl e, s1) \<Rightarrow> (Inl e, s1)
      | (Inr ok, s1) \<Rightarrow>
          if \<not> ok then (Inr False, s1)
          else if subsample_n > 1 then subsample_scene_files s1 subsample_n execute
          else (Inr True, s1))"

text \<open>
  \<^verbatim>\<open>check_scene_subfolders_empty\<close>: the requested kept directories that exist and
  hold nothing.
\<close>

definition check_scene_subfolders_empty :: "scene option \<Rightarrow> string list \<Rightarrow> string list" where
  "check_scene_subfolders_empty s assets =
     filter (\<lambda>asset. asset \<in> set keep_dirs \<and>
                (case lookup s asset of None \<Rightarrow> False | Some nd \<Rightarrow> glob nd [] = []))
       assets"

section \<open>The state of a run and the external collaborators\<close>

text \<open>
  The state a run works on: the scene directories below \<^verbatim>\<open>download_dir/raw\<close>, keyed by
  split and video id; the metadata catalog, which the run only reads; the state of
  everything outside the machine that decides how a download goes (\<open>net\<close>); the list of
  the download requests made so far, kept to tell whether the download step ran; and the
  number of calls of \<^verbatim>\<open>process_single_scene\<close> that have returned.
\<close>

record 'e world =
  scenes :: "string \<times> string \<Rightarrow> scene option"
  catalog :: metadata
  net :: 'e
  download_log :: "(string \<times> string \<times> string) list"
  served :: nat

text \<open>
  What the run does not control. \<open>download_asset\<close> is one call of \<^verbatim>\<open>download_data.py\<close>
  for one asset of one scene (arguments: outside state, split, video id, asset, the
  scene directory before): it reports whether the command returned 0 within its timeout
  and leaves a scene directory and an outside state behind. It touches no other scene.
  \<open>rmtree_fails\<close> tells for which scenes \<^verbatim>\<open>shutil.rmtree\<close> of the whole scene directory
  raises. \<open>sigint_after\<close> is the number of returned \<^verbatim>\<open>process_single_scene\<close> calls
  after which the interrupt signal arrives and sets \<^verbatim>\<open>shutdown_requested\<close>, if it
  arrives at all.
\<close>

record 'e env =
  download_asset ::
    "'e \<Rightarrow> string \<Rightarrow> string \<Rightarrow> string \<Rightarrow> scene option \<Rightarrow> bool \<times> scene option \<times> 'e"
  rmtree_fails :: "string \<times> string \<Rightarrow> bool"
  sigint_after :: "nat option"

definition shutdown_requested :: "'e env \<Rightarrow> 'e world \<Rightarrow> bool" where
  "shutdown_requested env w = (case sigint_after env of None \<Rightarrow> False | Some k \<Rightarrow> k \<le> served w)"

text \<open>
  The tuple \<^verbatim>\<open>args_tuple\<close> that \<^verbatim>\<open>process_single_scene\<close> unpacks. The attempt counter
  is an integer; \<^verbatim>\<open>main\<close> passes 0 in the main wave and 1 or 2 in the later waves.
  \<^verbatim>\<open>quiet\<close> only switches console output, which is not modelled.
\<close>

record scene_args =
  arg_video_id :: string
  arg_split :: string
  arg_download_dir :: string
  arg_assets :: "string list"
  arg_subsample_n :: int
  arg_execute :: bool
  arg_skip_download :: bool
  arg_force_reprocess :: bool
  arg_quiet :: bool
  arg_redownload_attempt :: int

definition scene_key :: "scene_args \<Rightarrow> string \<times> string" where
  "scene_key a = (arg_split a, arg_video_id a)"

definition put_scene :: "'e world \<Rightarrow> string \<times> string \<Rightarrow> scene option \<Rightarrow> 'e world" where
  "put_scene w k s = w\<lparr>scenes := (scenes w)(k := s)\<rparr>"

text \<open>
  \<^verbatim>\<open>remove_scene_directory\<close>: true when the directory is absent or could be removed.
\<close>

definition remove_scene_directory ::
    "'e env \<Rightarrow> 'e world \<Rightarrow> string \<times> string \<Rightarrow> bool \<times> 'e world" where
  "remove_scene_directory env w k =
     (if scenes w k \<noteq> None then
        (if rmtree_fails env k then (False, w) else (True, put_scene w k None))
      else (True, w))"

text \<open>
  \<^verbatim>\<open>run_download\<close> starts one \<^verbatim>\<open>download_asset\<close> per requested asset on a thread pool
  of \<^verbatim>\<open>min(len(assets), 4)\<close> workers, which raises \<^verbatim>\<open>ValueError\<close> for no worker at
  all, and returns \<^verbatim>\<open>all(results)\<close>. The requests are made here one after the other,
  in the order of the asset list.
\<close>

fun download_assets ::
    "'e env \<Rightarrow> string \<Rightarrow> string \<Rightarrow> string list \<Rightarrow> 'e world \<Rightarrow> bool list \<times> 'e world" where
  "download_assets env split vid [] w = ([], w)"
| "download_assets env split vid (asset # rest) w =
     (case download_asset env (net w) split vid asset (scenes w (split, vid)) of
        (ok, s', e') \<Rightarrow>
          (case download_assets env split vid rest
                  ((put_scene w (split, vid) s')
                     \<lparr>net := e', download_log := download_log w @ [(split, vid, asset)]\<rparr>) of
             (oks, w') \<Rightarrow> (ok # oks, w')))"

definition run_download ::
    "'e env \<Rightarrow> 'e world \<Rightarrow> string \<Rightarrow> string \<Rightarrow> string list \<Rightarrow> (exn + bool) \<times> 'e world" where
  "run_download env w vid split assets =
     (if assets = [] then (Inl (ValueError ''max_workers must be greater than 0''), w)
      else
        (case download_assets env split vid assets w of
           (results, w') \<Rightarrow> (Inr (list_all (\<lambda>ok. ok) results), w')))"

section \<open>Processing one scene\<close>

definition make_result ::
    "string \<Rightarrow> bool \<Rightarrow> error_text option \<Rightarrow> string \<Rightarrow> string option \<Rightarrow> result" where
  "make_result vid ok err ph rsn =
     \<lparr>video_id = vid, success = ok, error = err, phase = Some ph, reason = rsn\<rparr>"

text \<open>
  The three blocks of the \<^verbatim>\<open>try\<close> body of \<^verbatim>\<open>process_single_scene\<close>. A block returns
  \<open>Some\<close> result where the source returns from the function and \<open>None\<close> where it goes
  on to the next block.

  First block, "Check if we should skip this scene". The second
  \<^verbatim>\<open>elif action == 'remove'\<close> of the source can never be taken, the first one has
  caught that action.
\<close>

definition skip_check ::
    "'e env \<Rightarrow> 'e world \<Rightarrow> scene_args \<Rightarrow> (exn + result option) \<times> 'e world" where
  "skip_check env w a =
     (if \<not> arg_force_reprocess a \<and> arg_redownload_attempt a = 0 then
        (case should_skip_scene (catalog w) (scenes w (scene_key a)) (arg_video_id a)
                (arg_assets a) (arg_subsample_n a) of
           Inl e \<Rightarrow> (Inl e, w)
         | Inr (action, rsn) \<Rightarrow>
             (case action of
                Skip \<Rightarrow> (Inr (Some (make_result (arg_video_id a) True None ''skipped'' (Some rsn))), w)
              | Skip_no_highres \<Rightarrow>
                  (Inr (Some (make_result (arg_video_id a) True None ''skipped_no_highres''
                                (Some rsn))), w)
              | Remove \<Rightarrow>
                  (case remove_scene_directory env w (scene_key a) of
                     (removed, w') \<Rightarrow>
                       if removed then
                         (Inr (Some (make_result (arg_video_id a) True None
                                       ''removed_no_highres'' (Some rsn))), w')
                       else
                         (Inr (Some (make_result (arg_video_id a) False
                                       (Some (Literal ''Failed to remove scene directory''))
                                       ''removal_failed'' None)), w'))
              | Redownload \<Rightarrow> (Inr None, w)
              | Process \<Rightarrow> (Inr None, w)))
      else (Inr None, w))"

text \<open>Second block, "Download phase".\<close>

definition download_phase ::
    "'e env \<Rightarrow> 'e world \<Rightarrow> scene_args \<Rightarrow> (exn + result option) \<times> 'e world" where
  "download_phase env w a =
     (if \<not> arg_skip_download a \<or> arg_redownload_attempt a > 0 then
        (case run_download env w (arg_video_id a) (arg_split a) (arg_assets a) of
           (Inl e, w') \<Rightarrow> (Inl e, w')
         | (Inr download_success, w') \<Rightarrow>
             if \<not> download_success then
               (if arg_redownload_attempt a > 0 then
                  (Inr (Some (make_result (arg_video_id a) False
                                (Some (Literal ''Redownload failed - scene not removed''))
                                ''redownload_failed'' None)), w')
                else
                  (Inr (Some (make_result (arg_video_id a) False
                                (Some (Literal ''Download failed'')) ''download'' None)), w'))
             else if arg_redownload_attempt a > 0 then
               (case validate_scene_download (scenes w' (scene_key a)) (arg_assets a) of
                  Inl e \<Rightarrow> (Inl e, w')
                | Inr (st, corrupted_files, missing_files) \<Rightarrow>
                    if st = Missing_intrinsics then
                      (Inr (Some (make_result (arg_video_id a) False
                                    (Some (Literal
                                       ''Scene has missing intrinsics after redownload - not removed''))
                                    ''removed_missing_intrinsics'' None)), w')
                    else (Inr None, w'))
             else (Inr None, w'))
      else (Inr None, w))"

text \<open>Third block, "Processing phase", and the final return.\<close>

definition processing_phase :: "'e world \<Rightarrow> scene_args \<Rightarrow> (exn + result) \<times> 'e world" where
  "processing_phase w a =
     (case run_clean_subsample (scenes w (scene_key a)) (arg_subsample_n a) (arg_execute a) of
        (Inl e, s') \<Rightarrow> (Inl e, put_scene w (scene_key a) s')
      | (Inr process_success, s') \<Rightarrow>
          if \<not> process_success then
            (Inr (make_result (arg_video_id a) False (Some (Literal ''Processing failed''))
                    ''processing'' None), put_scene w (scene_key a) s')
          else
            (Inr (make_result (arg_video_id a) True None ''completed'' None),
             put_scene w (scene_key a) s'))"

definition try_body :: "'e env \<Rightarrow> 'e world \<Rightarrow> scene_args \<Rightarrow> (exn + result) \<times> 'e world" where
  "try_body env w a =
     (case skip_check env w a of
        (Inl e, w1) \<Rightarrow> (Inl e, w1)
      | (Inr (Some r), w1) \<Rightarrow> (Inr r, w1)
      | (Inr None, w1) \<Rightarrow>
          (case download_phase env w1 a of
             (Inl e, w2) \<Rightarrow> (Inl e, w2)
           | (Inr (Some r), w2) \<Rightarrow> (Inr r, w2)
           | (Inr None, w2) \<Rightarrow> processing_phase w2 a))"

text \<open>
  \<^verbatim>\<open>process_single_scene\<close>: the \<^verbatim>\<open>try\<close> body, and the \<^verbatim>\<open>except Exception\<close> clause
  that turns whatever the body raises into a result.
\<close>

definition process_single_scene :: "'e env \<Rightarrow> 'e world \<Rightarrow> scene_args \<Rightarrow> result \<times> 'e world" where
  "process_single_scene env w a =
     (case try_body env w a of
        (Inl e, w') \<Rightarrow>
          (\<lparr>video_id = arg_video_id a, success = False, error = Some (Str_of e),
            phase = Some ''exception'', reason = None\<rparr>, w')
      | (Inr r, w') \<Rightarrow> (r, w'))"

section \<open>The waves of a run\<close>

text \<open>
  \<^verbatim>\<open>main\<close> in single process mode (\<^verbatim>\<open>num_processes == 1\<close>), where every wave is a
  loop over its tasks that stops once a shutdown has been requested. The process pool of
  the other mode, console output, logging and the exit code are not modelled. The
  command line is taken as parsed, the scene list as loaded and sliced.
\<close>

record cli_args =
  cli_subsample :: int
  cli_download_dir :: string
  cli_skip_download :: bool
  cli_execute :: bool
  cli_force_reprocess :: bool
  cli_validate_only :: bool
  cli_verbose :: bool
  cli_assets :: "string list"

text \<open>One wave: the results in task order, each with its task.\<close>

fun run_wave ::
    "'e env \<Rightarrow> scene_args list \<Rightarrow> 'e world \<Rightarrow> (scene_args \<times> result) list \<times> 'e world" where
  "run_wave env [] w = ([], w)"
| "run_wave env (a # rest) w =
     (if shutdown_requested env w then ([], w)
      else
        (case process_single_scene env w a of
           (r, w1) \<Rightarrow>
             (case run_wave env rest (w1\<lparr>served := served w1 + 1\<rparr>) of
                (rs, w2) \<Rightarrow> ((a, r) # rs, w2))))"

text \<open>The tracker of a wave after \<^verbatim>\<open>progress.update(result, scene_arg[1])\<close> for each result.\<close>

definition track :: "nat \<Rightarrow> (scene_args \<times> result) list \<Rightarrow> progress_tracker" where
  "track n rs = update_all (init_tracker n) (map (\<lambda>(a, r). (r, Some (arg_split a))) rs)"

text \<open>The first task with the given video id, as the lookup loops of \<^verbatim>\<open>main\<close> find it.\<close>

definition find_scene_arg :: "scene_args list \<Rightarrow> string \<Rightarrow> scene_args option" where
  "find_scene_arg tasks vid = find (\<lambda>a. arg_video_id a = vid) tasks"

definition main_args :: "cli_args \<Rightarrow> (string \<times> string) list \<Rightarrow> scene_args list" where
  "main_args args scene_list =
     map (\<lambda>(vid, split).
            \<lparr>arg_video_id = vid, arg_split = split, arg_download_dir = cli_download_dir args,
             arg_assets = cli_assets args, arg_subsample_n = cli_subsample args,
             arg_execute = (cli_execute args \<and> \<not> cli_validate_only args),
             arg_skip_download = (cli_skip_download args \<or> cli_validate_only args),
             arg_force_reprocess = cli_force_reprocess args,
             arg_quiet = (\<not> cli_verbose args), arg_redownload_attempt = 0\<rparr>)
       scene_list"

text \<open>
  \<^verbatim>\<open>scenes_needing_redownload\<close>: \<^verbatim>\<open>scene_arg[:4]\<close> of every main wave result with the
  phase \<^verbatim>\<open>removed_missing_intrinsics\<close>.
\<close>

definition needing_redownload ::
    "(scene_args \<times> result) list \<Rightarrow> (string \<times> string \<times> string \<times> string list) list" where
  "needing_redownload rs =
     map (\<lambda>(a, r). (arg_video_id a, arg_split a, arg_download_dir a, arg_assets a))
       (filter (\<lambda>(a, r). phase r = Some ''removed_missing_intrinsics'') rs)"

text \<open>\<^verbatim>\<open>failed_scenes\<close>: the task of every video id in the main wave's \<^verbatim>\<open>failed_downloads\<close>.\<close>

definition failed_scenes_of :: "scene_args list \<Rightarrow> progress_tracker \<Rightarrow> scene_args list" where
  "failed_scenes_of tasks progress =
     concat (map (\<lambda>vid. case find_scene_arg tasks vid of None \<Rightarrow> [] | Some a \<Rightarrow> [a])
               (failed_downloads progress))"

text \<open>The removal of the scenes that failed the retry.\<close>

fun remove_failed :: "'e env \<Rightarrow> scene_args list \<Rightarrow> string list \<Rightarrow> 'e world \<Rightarrow> 'e world" where
  "remove_failed env failed_scenes [] w = w"
| "remove_failed env failed_scenes (vid # vids) w =
     (case find_scene_arg failed_scenes vid of
        None \<Rightarrow> remove_failed env failed_scenes vids w
      | Some a \<Rightarrow>
          remove_failed env failed_scenes vids
            (snd (remove_scene_directory env w (arg_split a, vid))))"

text \<open>\<^verbatim>\<open>item.split(' ')[0]\<close>\<close>

definition first_word :: "string \<Rightarrow> string" where
  "first_word item = takeWhile (\<lambda>c. c \<noteq> CHR '' '') item"

definition permanently_failed :: "progress_tracker \<Rightarrow> string list" where
  "permanently_failed retry_progress =
     failed_downloads retry_progress @ map first_word (failed_processing retry_progress)"

text \<open>"Retry phase: retry failed downloads"\<close>

definition retry_wave ::
    "'e env \<Rightarrow> scene_args list \<Rightarrow> 'e world \<Rightarrow> (scene_args \<times> result) list \<times> 'e world" where
  "retry_wave env failed_scenes w =
     (if failed_scenes \<noteq> [] \<and> \<not> shutdown_requested env w then
        (let retry_args =
               map (\<lambda>a. a\<lparr>arg_skip_download := False, arg_force_reprocess := True,
                           arg_redownload_attempt := 1\<rparr>) failed_scenes
         in case run_wave env retry_args w of
              (rs, w1) \<Rightarrow>
                (rs, remove_failed env failed_scenes
                       (permanently_failed (track (length failed_scenes) rs)) w1))
      else ([], w))"

text \<open>"Second pass: redownload scenes that were missing intrinsics"\<close>

definition repair_args ::
    "cli_args \<Rightarrow> (string \<times> string \<times> string \<times> string list) list \<Rightarrow> scene_args list" where
  "repair_args args todo =
     map (\<lambda>(vid, split, download_dir, assets).
            \<lparr>arg_video_id = vid, arg_split = split, arg_download_dir = download_dir,
             arg_assets = assets, arg_subsample_n = cli_subsample args,
             arg_execute = (cli_execute args \<and> \<not> cli_validate_only args),
             arg_skip_download = False, arg_force_reprocess = cli_force_reprocess args,
             arg_quiet = (\<not> cli_verbose args), arg_redownload_attempt = 1\<rparr>)
       todo"

definition repair_wave ::
    "'e env \<Rightarrow> cli_args \<Rightarrow> (string \<times> string \<times> string \<times> string list) list \<Rightarrow> 'e world
       \<Rightarrow> (scene_args \<times> result) list \<times> 'e world" where
  "repair_wave env args scenes_needing_redownload w =
     (if scenes_needing_redownload \<noteq> [] \<and> \<not> shutdown_requested env w then
        run_wave env (repair_args args scenes_needing_redownload) w
      else ([], w))"

text \<open>"Check for empty subfolders in successful scenes and handle them"\<close>

definition empty_args :: "cli_args \<Rightarrow> (string \<times> string) list \<Rightarrow> scene_args list" where
  "empty_args args todo =
     map (\<lambda>(vid, split).
            \<lparr>arg_video_id = vid, arg_split = split, arg_download_dir = cli_download_dir args,
             arg_assets = cli_assets args, arg_subsample_n = cli_subsample args,
             arg_execute = (cli_execute args \<and> \<not> cli_validate_only args),
             arg_skip_download = False, arg_force_reprocess = True,
             arg_quiet = (\<not> cli_verbose args), arg_redownload_attempt = 2\<rparr>)
       todo"

definition with_empty_dirs :: "'e world \<Rightarrow> string list \<Rightarrow> string \<times> string \<Rightarrow> bool" where
  "with_empty_dirs w assets = (\<lambda>(vid, split).
     check_scene_subfolders_empty (scenes w (split, vid)) assets \<noteq> [])"

definition remove_all :: "'e env \<Rightarrow> (string \<times> string) list \<Rightarrow> 'e world \<Rightarrow> 'e world" where
  "remove_all env todo w =
     foldl (\<lambda>w (vid, split). snd (remove_scene_directory env w (split, vid))) w todo"

definition empty_wave ::
    "'e env \<Rightarrow> cli_args \<Rightarrow> progress_tracker \<Rightarrow> 'e world
       \<Rightarrow> (scene_args \<times> result) list \<times> 'e world" where
  "empty_wave env args progress w =
     (if \<not> shutdown_requested env w \<and> \<not> cli_validate_only args then
        (let scenes_with_empty_dirs =
               filter (with_empty_dirs w (cli_assets args)) (successful_scenes progress)
         in if scenes_with_empty_dirs \<noteq> [] then
              (case run_wave env (empty_args args scenes_with_empty_dirs) w of
                 (rs, w1) \<Rightarrow>
                   (let successful_redownloads =
                          successful_scenes (track (length scenes_with_empty_dirs) rs);
                        still_empty =
                          filter (\<lambda>sc. sc \<notin> set successful_redownloads
                                       \<or> with_empty_dirs w1 (cli_assets args) sc)
                            scenes_with_empty_dirs
                    in (rs, remove_all env still_empty w1)))
            else ([], w))
      else ([], w))"

text \<open>What a run leaves behind: the results of each wave, and the state after each wave.\<close>

record 'e report =
  main_results :: "(scene_args \<times> result) list"
  after_main :: "'e world"
  retry_results :: "(scene_args \<times> result) list"
  after_retry :: "'e world"
  repair_tasks :: "(string \<times> string \<times> string \<times> string list) list"
  repair_results :: "(scene_args \<times> result) list"
  after_repair :: "'e world"
  empty_results :: "(scene_args \<times> result) list"
  final :: "'e world"

definition main :: "'e env \<Rightarrow> cli_args \<Rightarrow> (string \<times> string) list \<Rightarrow> 'e world \<Rightarrow> 'e report" where
  "main env args scene_list w0 =
     (let scene_args = main_args args scene_list
      in case run_wave env scene_args w0 of
           (rs1, w1) \<Rightarrow>
             (let progress = track (length scene_list) rs1;
                  scenes_needing_redownload = needing_redownload rs1;
                  failed_scenes = failed_scenes_of scene_args progress
              in case retry_wave env failed_scenes w1 of
                   (rs2, w2) \<Rightarrow>
                     (case repair_wave env args scenes_needing_redownload w2 of
                        (rs3, w3) \<Rightarrow>
                          (case empty_wave env args progress w3 of
                             (rs4, w4) \<Rightarrow>
                               \<lparr>main_results = rs1, after_main = w1,
                                retry_results = rs2, after_retry = w2,
                                repair_tasks = scenes_needing_redownload,
                                repair_results = rs3, after_repair = w3,
                                empty_results = rs4, final = w4\<rparr>))))"

section \<open>Conditions on a scene directory used in the statements below\<close>

text \<open>Every entry named like a zip file is a regular file that passes the zip test.\<close>

definition no_corrupt_zips :: "scene option \<Rightarrow> bool" where
  "no_corrupt_zips s \<longleftrightarrow>
     (\<forall>(name, nd) \<in> set (entries s). ends_with ''.zip'' name \<longrightarrow> nd = File ZipGood)"

text \<open>The number of files of its type in a kept directory (0 if there is none).\<close>

definition count_files :: "scene option \<Rightarrow> string \<Rightarrow> nat" where
  "count_files s d = (case lookup s d of None \<Rightarrow> 0 | Some nd \<Rightarrow> length (glob nd (ext_of d)))"

text \<open>
  The scene is there, each of the three kept directories is there with at least 10 files
  of its type, and every other known asset of the request has its entry.
\<close>

definition structurally_complete :: "scene option \<Rightarrow> string list \<Rightarrow> bool" where
  "structurally_complete s assets \<longleftrightarrow>
     s \<noteq> None
     \<and> (\<forall>d \<in> set keep_dirs. exists_in s d \<and> 10 \<le> count_files s d)
     \<and> (\<forall>a \<in> set assets. a \<in> set known_assets \<longrightarrow> exists_in s a)"

definition no_oversized :: "scene option \<Rightarrow> bool" where
  "no_oversized s \<longleftrightarrow> (\<forall>d \<in> set keep_dirs. count_files s d \<le> 1000)"

text \<open>The catalog check that opens \<^verbatim>\<open>should_skip_scene\<close> lets the scene pass.\<close>

definition eligible :: "metadata \<Rightarrow> string \<Rightarrow> string list \<Rightarrow> bool" where
  "eligible md vid assets \<longleftrightarrow>
     (''highres_depth'' \<in> set assets \<longrightarrow> has_highres_depth_available md vid)"

section \<open>Example data\<close>

definition ten_pngs :: "string list" where
  "ten_pngs =
     [''f0.png'', ''f1.png'', ''f2.png'', ''f3.png'', ''f4.png'',
      ''f5.png'', ''f6.png'', ''f7.png'', ''f8.png'', ''f9.png'']"

definition ten_pincams :: "string list" where
  "ten_pincams =
     [''f0.pincam'', ''f1.pincam'', ''f2.pincam'', ''f3.pincam'', ''f4.pincam'',
      ''f5.pincam'', ''f6.pincam'', ''f7.pincam'', ''f8.pincam'', ''f9.pincam'']"

definition default_assets :: "string list" where
  "default_assets = [''highres_depth'', ''ultrawide'', ''ultrawide_intrinsics'']"

definition complete_scene :: scene where
  "complete_scene =
     [(''highres_depth'', Dir ten_pngs), (''ultrawide'', Dir ten_pngs),
      (''ultrawide_intrinsics'', Dir ten_pincams)]"

definition scene_without_intrinsics :: scene where
  "scene_without_intrinsics = [(''highres_depth'', Dir ten_pngs), (''ultrawide'', Dir ten_pngs)]"

definition scene_with_few_depth_maps :: scene where
  "scene_with_few_depth_maps =
     [(''highres_depth'', Dir [''f0.png'', ''f1.png'', ''f2.png'']), (''ultrawide'', Dir ten_pngs)]"

text \<open>A catalog that lists the scene 41069021 without high resolution depth.\<close>

definition catalog_without_highres :: metadata where
  "catalog_without_highres =
     Rows [[(''video_id'', Some ''41069021''), (''fold'', Some ''Training''),
            (''is_in_upsampling'', Some ''False'')]]"

section \<open>Notions used to state what subsampling leaves\<close>

text \<open>The files in the sub-directory \<open>d\<close> of a scene.\<close>

definition dir_files :: "scene option \<Rightarrow> string \<Rightarrow> string list" where
  "dir_files s d = (case lookup s d of Some (Dir cs) \<Rightarrow> cs | _ \<Rightarrow> [])"

text \<open>The name-sorted list of the files of the directory's own type.\<close>

definition typed_files :: "scene option \<Rightarrow> string \<Rightarrow> string list" where
  "typed_files s d = sort (filter (\<lambda>f. suffix_of f = ext_of d) (dir_files s d))"

text \<open>
  The indices, in the sorted list of the files of \<open>d\<close> before, of the files that are
  still there after.
\<close>

definition retained :: "scene option \<Rightarrow> scene option \<Rightarrow> string \<Rightarrow> nat list" where
  "retained s s' d =
     filter (\<lambda>i. typed_files s d ! i \<in> set (dir_files s' d)) [0..<length (typed_files s d)]"

text \<open>
  What \<^verbatim>\<open>subsample_scene_files\<close> leaves of the children \<open>cs\<close> of a directory whose
  type is \<open>ext\<close>, for a positive step \<open>k\<close>, when it executes.
\<close>

definition kept_after :: "string \<Rightarrow> nat \<Rightarrow> string list \<Rightarrow> string list" where
  "kept_after ext k cs =
     (let files = sort (filter (\<lambda>f. suffix_of f = ext) cs);
          files_to_keep = every_nth k files;
          files_to_remove = filter (\<lambda>f. f \<notin> set files_to_keep) files
      in filter (\<lambda>c. c \<notin> set files_to_remove) cs)"

text \<open>No kept directory of the scene is a regular file.\<close>

definition no_file_in_place_of_dir :: "scene \<Rightarrow> bool" where
  "no_file_in_place_of_dir es \<longleftrightarrow>
     (\<forall>d \<in> set keep_dirs. case map_of es d of Some (File _) \<Rightarrow> False | _ \<Rightarrow> True)"

definition five_frames :: scene where
  "five_frames =
     [(''highres_depth'', Dir [''f3.png'', ''f0.png'', ''f4.png'', ''f1.png'', ''f2.png'']),
      (''ultrawide'', Dir [''f0.png'', ''f1.png'', ''f2.png'', ''f3.png'', ''f4.png'']),
      (''ultrawide_intrinsics'',
         Dir [''f0.pincam'', ''f1.pincam'', ''f2.pincam'', ''f3.pincam'', ''f4.pincam''])]"

definition scene_with_stray_file :: scene where
  "scene_with_stray_file =
     [(''highres_depth'', Dir [''f0.png'', ''f1.png'', ''f2.png'', ''readme.txt''])]"

section \<open>Example collaborators and states\<close>

text \<open>A download command that always reports success and writes nothing.\<close>

definition idle_env :: "unit env" where
  "idle_env =
     \<lparr>download_asset = (\<lambda>e split vid asset s. (True, s, e)),
      rmtree_fails = (\<lambda>k. False), sigint_after = None\<rparr>"

definition empty_disk :: "unit world" where
  "empty_disk =
     \<lparr>scenes = (\<lambda>k. None), catalog = No_metadata, net = (), download_log = [], served = 0\<rparr>"

definition example_args :: scene_args where
  "example_args =
     \<lparr>arg_video_id = ''41069021'', arg_split = ''Training'', arg_download_dir = ''./data'',
      arg_assets = default_assets, arg_subsample_n = 10, arg_execute = True,
      arg_skip_download = False, arg_force_reprocess = False, arg_quiet = True,
      arg_redownload_attempt = 0\<rparr>"

text \<open>A download command that always fails and writes nothing.\<close>

definition failing_env :: "unit env" where
  "failing_env =
     \<lparr>download_asset = (\<lambda>e split vid asset s. (False, s, e)),
      rmtree_fails = (\<lambda>k. False), sigint_after = None\<rparr>"

text \<open>
  A download command whose first three calls fail and whose later calls succeed; a
  successful call for an image asset leaves a directory with ten images, a successful
  call for any other asset leaves nothing. The outside state counts the calls.
\<close>

definition flaky_env :: "nat env" where
  "flaky_env =
     \<lparr>download_asset = (\<lambda>calls split vid asset s.
        if calls < 3 then (False, s, calls + 1)
        else if asset \<in> set [''highres_depth'', ''ultrawide'']
        then (True, Some (entries s @ [(asset, Dir ten_pngs)]), calls + 1)
        else (True, s, calls + 1)),
      rmtree_fails = (\<lambda>k. False), sigint_after = None\<rparr>"

text \<open>The same download command on a machine where no scene directory can be removed.\<close>

definition stubborn_env :: "nat env" where
  "stubborn_env = flaky_env\<lparr>rmtree_fails := (\<lambda>k. True)\<rparr>"

text \<open>
  A download command whose first three calls succeed and leave an empty directory for
  the asset, and whose later calls fail.
\<close>

definition hollow_env :: "nat env" where
  "hollow_env =
     \<lparr>download_asset = (\<lambda>calls split vid asset s.
        if calls < 3 then (True, Some (entries s @ [(asset, Dir [])]), calls + 1)
        else (False, s, calls + 1)),
      rmtree_fails = (\<lambda>k. False), sigint_after = None\<rparr>"

definition fresh_disk :: "nat world" where
  "fresh_disk =
     \<lparr>scenes = (\<lambda>k. None), catalog = No_metadata, net = 0, download_log = [], served = 0\<rparr>"

definition example_cli :: cli_args where
  "example_cli =
     \<lparr>cli_subsample = 10, cli_download_dir = ''./data'', cli_skip_download = False,
      cli_execute = True, cli_force_reprocess = False, cli_validate_only = False,
      cli_verbose = False, cli_assets = default_assets\<rparr>"

section \<open>Properties of the progress tracker\<close>

lemma update_completed: "completed (update t r sp) = completed t + 1"
  by (simp add: update_def Let_def split: option.splits)

lemma update_accounted: "accounted (update t r sp) = accounted t + 1"
  by (simp add: update_def accounted_def Let_def split: option.splits)

lemma update_all_completed: "completed (update_all t rs) = completed t + length rs"
  unfolding update_all_def
  by (induction rs arbitrary: t) (simp_all add: update_completed split: prod.splits)

lemma update_all_accounted: "accounted (update_all t rs) = accounted t + length rs"
  unfolding update_all_def
  by (induction rs arbitrary: t) (simp_all add: update_accounted split: prod.splits)

text \<open>
  Claim C5. Every \<^verbatim>\<open>update\<close> adds one to \<^verbatim>\<open>completed\<close> and changes exactly one bucket
  and nothing else: a successful result with a phase in \<^verbatim>\<open>skipped\<close>,
  \<^verbatim>\<open>skipped_no_highres\<close>, \<^verbatim>\<open>removed_no_highres\<close> counts as skipped; any other
  successful result counts as a success and, when a split is given, is recorded in
  \<^verbatim>\<open>successful_scenes\<close>; a failure with phase \<^verbatim>\<open>download\<close> appends the video id to
  \<^verbatim>\<open>failed_downloads\<close>; a failure with one of the four removal phases appends the video
  id with the phase in brackets to \<^verbatim>\<open>failed_processing\<close>; any other failure appends
  the bare video id to \<^verbatim>\<open>failed_processing\<close>. Hence, after any sequence of updates of
  a fresh tracker, \<^verbatim>\<open>completed\<close> is the sum of the two counters and the lengths of the
  two failure lists.
\<close>

theorem update_buckets:
  "completed (update t r sp) = completed t + 1
   \<and> (success r \<and> get_phase r \<in> set skip_phases \<longrightarrow>
        update t r sp = t\<lparr>completed := completed t + 1, skipped_count := skipped_count t + 1\<rparr>)
   \<and> (success r \<and> get_phase r \<notin> set skip_phases \<longrightarrow>
        update t r sp =
          t\<lparr>completed := completed t + 1, success_count := success_count t + 1,
            successful_scenes := successful_scenes t @
              (case sp of None \<Rightarrow> [] | Some s \<Rightarrow> if s \<noteq> [] then [(video_id r, s)] else [])\<rparr>)
   \<and> (\<not> success r \<and> get_phase r = ''download'' \<longrightarrow>
        update t r sp =
          t\<lparr>completed := completed t + 1, failed_downloads := failed_downloads t @ [video_id r]\<rparr>)
   \<and> (\<not> success r \<and> get_phase r \<in> set removal_phases \<longrightarrow>
        update t r sp =
          t\<lparr>completed := completed t + 1,
            failed_processing := failed_processing t @ [video_id r @ '' ('' @ get_phase r @ '')'']\<rparr>)
   \<and> (\<not> success r \<and> get_phase r \<noteq> ''download'' \<and> get_phase r \<notin> set removal_phases \<longrightarrow>
        update t r sp =
          t\<lparr>completed := completed t + 1, failed_processing := failed_processing t @ [video_id r]\<rparr>)
   \<and> completed (update_all (init_tracker n) rs) =
        success_count (update_all (init_tracker n) rs)
        + skipped_count (update_all (init_tracker n) rs)
        + length (failed_downloads (update_all (init_tracker n) rs))
        + length (failed_processing (update_all (init_tracker n) rs))"
proof -
  have "completed (update_all (init_tracker n) rs) = accounted (update_all (init_tracker n) rs)"
    by (simp add: update_all_completed update_all_accounted)
       (simp add: init_tracker_def accounted_def)
  then have inv: "completed (update_all (init_tracker n) rs) =
        success_count (update_all (init_tracker n) rs)
        + skipped_count (update_all (init_tracker n) rs)
        + length (failed_downloads (update_all (init_tracker n) rs))
        + length (failed_processing (update_all (init_tracker n) rs))"
    by (simp only: accounted_def)
  have dl: "''download'' \<notin> set removal_phases"
    by (simp add: removal_phases_def)
  show ?thesis
    using inv dl by (auto simp add: update_def Let_def split: option.splits)
qed

theorem update_buckets_witness:
  "update (init_tracker 5)
     \<lparr>video_id = ''41069021'', success = True, error = None, phase = Some ''skipped'',
      reason = Some ''Scene is complete''\<rparr> (Some ''Training'')
     = (init_tracker 5)\<lparr>completed := 1, skipped_count := 1\<rparr>
   \<and> update (init_tracker 5)
     \<lparr>video_id = ''41069021'', success = True, error = None, phase = Some ''completed'',
      reason = None\<rparr> (Some ''Training'')
     = (init_tracker 5)\<lparr>completed := 1, success_count := 1,
          successful_scenes := [(''41069021'', ''Training'')]\<rparr>
   \<and> update (init_tracker 5)
     \<lparr>video_id = ''41069021'', success = False, error = Some (Literal ''Download failed''),
      phase = Some ''download'', reason = None\<rparr> (Some ''Training'')
     = (init_tracker 5)\<lparr>completed := 1, failed_downloads := [''41069021'']\<rparr>
   \<and> update (init_tracker 5)
     \<lparr>video_id = ''41069021'', success = False,
      error = Some (Literal ''Redownload failed - scene not removed''),
      phase = Some ''redownload_failed'', reason = None\<rparr> (Some ''Training'')
     = (init_tracker 5)\<lparr>completed := 1,
          failed_processing := [''41069021 (redownload_failed)'']\<rparr>
   \<and> update (init_tracker 5)
     \<lparr>video_id = ''41069021'', success = False, error = Some (Literal ''Processing failed''),
      phase = Some ''processing'', reason = None\<rparr> (Some ''Training'')
     = (init_tracker 5)\<lparr>completed := 1, failed_processing := [''41069021'']\<rparr>"
  using
    update_buckets [of "init_tracker 5"
      "\<lparr>video_id = ''41069021'', success = True, error = None, phase = Some ''skipped'',
        reason = Some ''Scene is complete''\<rparr>" "Some ''Training''" 0 "[]"]
    update_buckets [of "init_tracker 5"
      "\<lparr>video_id = ''41069021'', success = True, error = None, phase = Some ''completed'',
        reason = None\<rparr>" "Some ''Training''" 0 "[]"]
    update_buckets [of "init_tracker 5"
      "\<lparr>video_id = ''41069021'', success = False, error = Some (Literal ''Download failed''),
        phase = Some ''download'', reason = None\<rparr>" "Some ''Training''" 0 "[]"]
    update_buckets [of "init_tracker 5"
      "\<lparr>video_id = ''41069021'', success = False,
        error = Some (Literal ''Redownload failed - scene not removed''),
        phase = Some ''redownload_failed'', reason = None\<rparr>" "Some ''Training''" 0 "[]"]
    update_buckets [of "init_tracker 5"
      "\<lparr>video_id = ''41069021'', success = False, error = Some (Literal ''Processing failed''),
        phase = Some ''processing'', reason = None\<rparr>" "Some ''Training''" 0 "[]"]
  by (simp add: get_phase_def skip_phases_def removal_phases_def init_tracker_def)

section \<open>Properties of the classification\<close>

lemma scan_rows_absent:
  "\<forall>row \<in> set rows. map_of row ''video_id'' \<noteq> Some (Some vid) \<Longrightarrow> \<not> scan_rows rows vid"
  by (induction rows) (auto split: option.splits)

lemma test_zips_good:
  "\<forall>(name, nd) \<in> set es. ends_with ''.zip'' name \<longrightarrow> nd = File ZipGood \<Longrightarrow> test_zips es = Inr []"
  by (induction es) auto

lemma expected_items_shape_aux:
  "\<exists>xs. foldl (\<lambda>items a. if a \<notin> set items \<and> a \<in> set known_assets then items @ [a] else items)
            items assets = items @ xs
        \<and> set xs \<subseteq> {a \<in> set assets. a \<in> set known_assets \<and> a \<notin> set items}"
proof (induction assets arbitrary: items)
  case Nil
  then show ?case by simp
next
  case (Cons a assets)
  show ?case
  proof (cases "a \<notin> set items \<and> a \<in> set known_assets")
    case True
    from Cons.IH [of "items @ [a]"] obtain xs where
      "foldl (\<lambda>items a. if a \<notin> set items \<and> a \<in> set known_assets then items @ [a] else items)
            (items @ [a]) assets = (items @ [a]) @ xs"
      and "set xs \<subseteq> {b \<in> set assets. b \<in> set known_assets \<and> b \<notin> set (items @ [a])}"
      by blast
    with True show ?thesis
      by (intro exI [of _ "a # xs"]) auto
  next
    case False
    from Cons.IH [of items] obtain xs where
      "foldl (\<lambda>items a. if a \<notin> set items \<and> a \<in> set known_assets then items @ [a] else items)
            items assets = items @ xs"
      and "set xs \<subseteq> {b \<in> set assets. b \<in> set known_assets \<and> b \<notin> set items}"
      by blast
    with False show ?thesis
      by (intro exI [of _ xs]) auto
  qed
qed

lemma expected_items_shape:
  "\<exists>xs. expected_items assets = keep_dirs @ xs
        \<and> set xs \<subseteq> {a \<in> set assets. a \<in> set known_assets \<and> a \<notin> set keep_dirs}"
  unfolding expected_items_def keep_dirs_def by (rule expected_items_shape_aux)

lemma missing_of_other:
  "item \<notin> set keep_dirs \<Longrightarrow> exists_in s item \<Longrightarrow> missing_of s item = []"
  by (auto simp: missing_of_def exists_in_def keep_dirs_def)

lemma missing_of_kept:
  "d \<in> set keep_dirs \<Longrightarrow> exists_in s d \<Longrightarrow> 10 \<le> count_files s d \<Longrightarrow> missing_of s d = []"
  by (auto simp: missing_of_def exists_in_def keep_dirs_def count_files_def ext_of_def)

lemma missing_of_absent: "\<not> exists_in s item \<Longrightarrow> missing_of s item = [item]"
  by (auto simp: missing_of_def exists_in_def)

lemma concat_missing_others:
  "set xs \<subseteq> {a \<in> set assets. a \<in> set known_assets \<and> a \<notin> set keep_dirs} \<Longrightarrow>
   \<forall>a \<in> set assets. a \<in> set known_assets \<and> a \<notin> set keep_dirs \<longrightarrow> exists_in s a \<Longrightarrow>
   concat (map (missing_of s) xs) = []"
  by (induction xs) (auto simp: missing_of_other)

lemma oversized_none:
  "no_oversized s \<Longrightarrow> oversized s = None"
  by (auto simp: no_oversized_def oversized_def keep_dirs_def count_files_def split: option.splits)

lemma complete_validates:
  assumes "structurally_complete s assets" and "no_corrupt_zips s"
  shows "validate_scene_download s assets = Inr (Complete, [], [])"
proof -
  obtain xs where xs: "expected_items assets = keep_dirs @ xs"
    "set xs \<subseteq> {a \<in> set assets. a \<in> set known_assets \<and> a \<notin> set keep_dirs}"
    using expected_items_shape by blast
  have "concat (map (missing_of s) keep_dirs) = []"
    using assms(1) by (auto simp: structurally_complete_def missing_of_kept)
  moreover have "concat (map (missing_of s) xs) = []"
    using assms(1) xs(2) by (intro concat_missing_others [of _ assets]) (auto simp: structurally_complete_def)
  ultimately have m: "concat (map (missing_of s) (expected_items assets)) = []"
    by (simp add: xs(1))
  have z: "test_zips (entries s) = Inr []"
    using assms(2) by (intro test_zips_good) (simp add: no_corrupt_zips_def)
  show ?thesis
    by (simp add: validate_scene_download_def m z)
qed

lemma intrinsics_missing_validates:
  assumes "s \<noteq> None" and "no_corrupt_zips s"
    and "exists_in s ''highres_depth''" "10 \<le> count_files s ''highres_depth''"
    and "exists_in s ''ultrawide''" "10 \<le> count_files s ''ultrawide''"
    and "\<not> exists_in s ''ultrawide_intrinsics''"
    and "\<forall>a \<in> set assets. a \<in> set known_assets \<and> a \<notin> set keep_dirs \<longrightarrow> exists_in s a"
  shows "validate_scene_download s assets = Inr (Missing_intrinsics, [], [''ultrawide_intrinsics''])"
proof -
  obtain xs where xs: "expected_items assets = keep_dirs @ xs"
    "set xs \<subseteq> {a \<in> set assets. a \<in> set known_assets \<and> a \<notin> set keep_dirs}"
    using expected_items_shape by blast
  have "concat (map (missing_of s) keep_dirs) = [''ultrawide_intrinsics'']"
    using assms(3-7) by (simp add: keep_dirs_def missing_of_kept missing_of_absent)
  moreover have "concat (map (missing_of s) xs) = []"
    using assms(8) xs(2) by (intro concat_missing_others [of _ assets]) auto
  ultimately have m: "concat (map (missing_of s) (expected_items assets)) = [''ultrawide_intrinsics'']"
    by (simp add: xs(1))
  have z: "test_zips (entries s) = Inr []"
    using assms(2) by (intro test_zips_good) (simp add: no_corrupt_zips_def)
  show ?thesis
    using assms(3,5) by (simp add: validate_scene_download_def m z)
qed


lemmas example_defs =
  complete_scene_def scene_without_intrinsics_def scene_with_few_depth_maps_def
  default_assets_def ten_pngs_def ten_pincams_def catalog_without_highres_def

lemmas classify_defs =
  should_skip_scene_def validate_scene_download_def has_highres_depth_available_def
  expected_items_def known_assets_def missing_of_def lookup_def entries_def exists_in_def
  glob_def ends_with_def oversized_def ext_of_def

lemmas condition_defs =
  structurally_complete_def no_corrupt_zips_def no_oversized_def eligible_def count_files_def
  keep_dirs_def

text \<open>
  Claim C2, as stated, fails twice. A scene with depth and wide-image directories and
  no intrinsics directory is classified \<^verbatim>\<open>remove\<close> when the catalog does not list it
  with high resolution depth, because that check comes first; and it is classified
  \<^verbatim>\<open>process\<close> when its depth directory holds fewer than 10 images, because the
  directory then counts as missing too.
\<close>

theorem missing_intrinsics_counterexample:
  "exists_in (Some scene_without_intrinsics) ''highres_depth''
   \<and> exists_in (Some scene_without_intrinsics) ''ultrawide''
   \<and> \<not> exists_in (Some scene_without_intrinsics) ''ultrawide_intrinsics''
   \<and> no_corrupt_zips (Some scene_without_intrinsics)
   \<and> should_skip_scene catalog_without_highres (Some scene_without_intrinsics) ''41069021''
        default_assets 10
      = Inr (Remove, ''Scene doesn't have highres_depth available - will be removed'')
   \<and> exists_in (Some scene_with_few_depth_maps) ''highres_depth''
   \<and> exists_in (Some scene_with_few_depth_maps) ''ultrawide''
   \<and> \<not> exists_in (Some scene_with_few_depth_maps) ''ultrawide_intrinsics''
   \<and> no_corrupt_zips (Some scene_with_few_depth_maps)
   \<and> should_skip_scene No_metadata (Some scene_with_few_depth_maps) ''41069021''
        default_assets 10
      = Inr (Process, ''Missing: highres_depth (only 3 files), ultrawide_intrinsics'')"
  by (simp add: example_defs classify_defs condition_defs lower_def lower_char_def
      str_nat.simps digit_def)

text \<open>
  Claim C2, amended. A scene directory that exists, has no corrupt zip file, passes the
  catalog check (high resolution depth is not requested, or the catalog is absent or
  lists the scene with it), holds at least 10 images in its depth and in its wide-image
  directory, has no intrinsics directory and has an entry for every other known asset
  of the request, is classified \<^verbatim>\<open>redownload\<close>.
\<close>

theorem missing_intrinsics_redownload:
  assumes "s \<noteq> None" and "no_corrupt_zips s" and "eligible md vid assets"
    and "exists_in s ''highres_depth''" and "10 \<le> count_files s ''highres_depth''"
    and "exists_in s ''ultrawide''" and "10 \<le> count_files s ''ultrawide''"
    and "\<not> exists_in s ''ultrawide_intrinsics''"
    and "\<forall>a \<in> set assets. a \<in> set known_assets \<and> a \<notin> set keep_dirs \<longrightarrow> exists_in s a"
  shows "should_skip_scene md s vid assets n =
           Inr (Redownload, ''Has depth/wide but missing intrinsics - will redownload'')"
  using assms(1,3) intrinsics_missing_validates [OF assms(1,2,4-9)]
  by (simp add: should_skip_scene_def eligible_def)

theorem missing_intrinsics_redownload_witness:
  "should_skip_scene No_metadata (Some scene_without_intrinsics) ''41069021''
     (default_assets @ [''confidence'']) 10 \<noteq>
       Inr (Redownload, ''Has depth/wide but missing intrinsics - will redownload'')
   \<and> should_skip_scene No_metadata (Some scene_without_intrinsics) ''41069021'' default_assets 10
      = Inr (Redownload, ''Has depth/wide but missing intrinsics - will redownload'')"
proof -
  have "should_skip_scene No_metadata (Some scene_without_intrinsics) ''41069021'' default_assets 10
      = Inr (Redownload, ''Has depth/wide but missing intrinsics - will redownload'')"
    by (rule missing_intrinsics_redownload)
       (simp_all add: example_defs condition_defs exists_in_def lookup_def entries_def glob_def
          ends_with_def ext_of_def known_assets_def has_highres_depth_available_def)
  moreover have "should_skip_scene No_metadata (Some scene_without_intrinsics) ''41069021''
     (default_assets @ [''confidence'']) 10 \<noteq>
       Inr (Redownload, ''Has depth/wide but missing intrinsics - will redownload'')"
    by (simp add: example_defs classify_defs)
  ultimately show ?thesis by simp
qed

text \<open>
  Claim C3, as stated, fails for a complete scene that the catalog does not list with
  high resolution depth: the catalog check comes first and classifies it \<^verbatim>\<open>remove\<close>.
\<close>

theorem complete_scene_counterexample:
  "structurally_complete (Some complete_scene) default_assets
   \<and> no_corrupt_zips (Some complete_scene)
   \<and> no_oversized (Some complete_scene)
   \<and> should_skip_scene catalog_without_highres (Some complete_scene) ''41069021''
        default_assets 10
      = Inr (Remove, ''Scene doesn't have highres_depth available - will be removed'')"
  by (simp add: example_defs classify_defs condition_defs lower_def lower_char_def)

text \<open>
  Claim C3, amended. A scene that passes the catalog check (high resolution depth is
  not requested, or the catalog is absent or lists the scene with it), is structurally
  complete, has no corrupt zip file and no kept directory with more than 1000 files, is
  classified \<^verbatim>\<open>skip\<close>. The classification only reads the catalog and the scene
  directory, so it is a function of what is on disk: two calls on the same disk state
  return the same action and reason.
\<close>

theorem complete_scene_skipped:
  "(structurally_complete s assets \<and> no_corrupt_zips s \<and> no_oversized s
      \<and> eligible md vid assets \<longrightarrow>
    should_skip_scene md s vid assets n = Inr (Skip, ''Scene is complete''))
   \<and> (let first_call = should_skip_scene md' s' vid' assets' n';
           second_call = should_skip_scene md' s' vid' assets' n'
       in first_call = second_call)"
proof -
  have "should_skip_scene md s vid assets n = Inr (Skip, ''Scene is complete'')"
    if c: "structurally_complete s assets" and z: "no_corrupt_zips s"
      and o: "no_oversized s" and e: "eligible md vid assets"
    using c e complete_validates [OF c z] oversized_none [OF o]
    by (simp add: should_skip_scene_def eligible_def structurally_complete_def)
  then show ?thesis by simp
qed

theorem complete_scene_skipped_witness:
  "structurally_complete (Some complete_scene) default_assets
   \<and> no_corrupt_zips (Some complete_scene)
   \<and> no_oversized (Some complete_scene)
   \<and> eligible No_metadata ''41069021'' default_assets
   \<and> should_skip_scene No_metadata (Some complete_scene) ''41069021'' default_assets 10
      = Inr (Skip, ''Scene is complete'')"
proof -
  have h: "structurally_complete (Some complete_scene) default_assets
     \<and> no_corrupt_zips (Some complete_scene) \<and> no_oversized (Some complete_scene)
     \<and> eligible No_metadata ''41069021'' default_assets"
    by (simp add: example_defs condition_defs exists_in_def lookup_def entries_def glob_def
        ends_with_def ext_of_def known_assets_def has_highres_depth_available_def)
  with complete_scene_skipped [of "Some complete_scene" default_assets No_metadata "''41069021''" 10]
  show ?thesis by simp
qed

text \<open>
  Claim C10. Without a catalog file every scene counts as having high resolution depth.
  With a catalog that cannot be read, or in which no row carries the video id, no scene
  does. So without a catalog the classification never answers \<^verbatim>\<open>skip_no_highres\<close>, and
  where it answers \<^verbatim>\<open>remove\<close> it does so for a depth directory missing on disk, not
  for the catalog check of its first step.
\<close>

theorem no_catalog_means_available:
  "has_highres_depth_available No_metadata vid
   \<and> \<not> has_highres_depth_available Unreadable vid
   \<and> ((\<forall>row \<in> set rows. map_of row ''video_id'' \<noteq> Some (Some vid)) \<longrightarrow>
        \<not> has_highres_depth_available (Rows rows) vid)
   \<and> (\<forall>action rsn. should_skip_scene No_metadata s vid assets n = Inr (action, rsn) \<longrightarrow>
        action \<noteq> Skip_no_highres
        \<and> (action = Remove \<longrightarrow> rsn = ''Scene missing required highres_depth - will be removed''))"
  by (auto simp: has_highres_depth_available_def scan_rows_absent should_skip_scene_def
      split: if_splits sum.splits prod.splits option.splits)

theorem no_catalog_means_available_witness:
  "map_of [(''video_id'', Some ''41069021''), (''is_in_upsampling'', Some ''True'')] ''video_id''
     \<noteq> Some (Some ''47333462'')
   \<and> \<not> has_highres_depth_available
         (Rows [[(''video_id'', Some ''41069021''), (''is_in_upsampling'', Some ''True'')]])
         ''47333462''
   \<and> has_highres_depth_available
         (Rows [[(''video_id'', Some ''41069021''), (''is_in_upsampling'', Some ''True'')]])
         ''41069021''
   \<and> should_skip_scene No_metadata (Some [(''ultrawide'', Dir ten_pngs)]) ''47333462''
        default_assets 10
      = Inr (Remove, ''Scene missing required highres_depth - will be removed'')"
  using no_catalog_means_available
    [of "''47333462''" "[[(''video_id'', Some ''41069021''), (''is_in_upsampling'', Some ''True'')]]"
        "Some [(''ultrawide'', Dir ten_pngs)]" default_assets 10]
  by (simp add: example_defs classify_defs lower_def lower_char_def)

section \<open>Properties of cleaning and subsampling\<close>

lemma every_nth_subset: "set (every_nth n xs) \<subseteq> set xs"
proof (induction n xs rule: every_nth.induct)
  case (1 n)
  then show ?case by simp
next
  case (2 n x xs)
  have "set (drop (n - 1) xs) \<subseteq> set xs" by (rule set_drop_subset)
  with 2 show ?case by auto
qed

lemma every_nth_sorted: "sorted xs \<Longrightarrow> sorted (every_nth n xs)"
proof (induction n xs rule: every_nth.induct)
  case (1 n)
  then show ?case by simp
next
  case (2 n x xs)
  have sub: "set (every_nth n (drop (n - 1) xs)) \<subseteq> set xs"
    using every_nth_subset [of n "drop (n - 1) xs"] set_drop_subset [of "n - 1" xs] by blast
  from 2 have "sorted (every_nth n (drop (n - 1) xs))"
    by (simp add: sorted_wrt_drop)
  with 2 sub show ?case by auto
qed

lemma every_nth_distinct: "distinct xs \<Longrightarrow> distinct (every_nth n xs)"
proof (induction n xs rule: every_nth.induct)
  case (1 n)
  then show ?case by simp
next
  case (2 n x xs)
  have sub: "set (every_nth n (drop (n - 1) xs)) \<subseteq> set xs"
    using every_nth_subset [of n "drop (n - 1) xs"] set_drop_subset [of "n - 1" xs] by blast
  with 2 show ?case by auto
qed

lemma every_nth_length: "0 < n \<Longrightarrow> length (every_nth n xs) = (length xs + n - 1) div n"
proof (induction n xs rule: every_nth.induct)
  case (1 n)
  then show ?case by simp
next
  case (2 n x xs)
  show ?case
  proof (cases "n - 1 \<le> length xs")
    case True
    have "(length xs - (n - 1) + n - 1) div n = length xs div n"
      using True 2(2) by simp
    moreover have "(length (x # xs) + n - 1) div n = Suc (length xs div n)"
      using 2(2) by (simp add: div_add_self2)
    ultimately show ?thesis using 2 by simp
  next
    case False
    then have "length xs < n - 1" by simp
    then have "(length (x # xs) + n - 1) div n = 1"
      using 2(2) by (simp add: div_add_self2)
    moreover have "(length (drop (n - 1) xs) + n - 1) div n = 0"
      using False 2(2) by simp
    ultimately show ?thesis using 2 by simp
  qed
qed

lemma every_nth_nth:
  "0 < n \<Longrightarrow> i < length (every_nth n xs) \<Longrightarrow> every_nth n xs ! i = xs ! (i * n)"
proof (induction n xs arbitrary: i rule: every_nth.induct)
  case (1 n)
  then show ?case by simp
next
  case (2 n x xs)
  show ?case
  proof (cases i)
    case 0
    then show ?thesis by simp
  next
    case (Suc j)
    with 2(3) have j: "j < length (every_nth n (drop (n - 1) xs))" by simp
    then have "drop (n - 1) xs \<noteq> []" by auto
    then have le: "n - 1 < length xs" by simp
    have "j * n < length (drop (n - 1) xs)"
    proof -
      have "j < (length (drop (n - 1) xs) + n - 1) div n"
        using j every_nth_length [OF 2(2), of "drop (n - 1) xs"] by simp
      then have "Suc j \<le> (length (drop (n - 1) xs) + n - 1) div n" by simp
      then have "Suc j * n \<le> length (drop (n - 1) xs) + n - 1"
        using 2(2) by (simp add: less_eq_div_iff_mult_less_eq)
      then show ?thesis using 2(2) by simp
    qed
    then have "drop (n - 1) xs ! (j * n) = xs ! (n - 1 + j * n)"
      by simp
    moreover have "every_nth n (drop (n - 1) xs) ! j = drop (n - 1) xs ! (j * n)"
      using 2(1) [OF 2(2) j] .
    moreover have "(x # xs) ! (Suc j * n) = xs ! (n - 1 + j * n)"
      using 2(2) by (cases n) (simp_all add: ac_simps)
    ultimately show ?thesis using Suc by simp
  qed
qed

lemma every_nth_map:
  assumes "0 < n"
  shows "every_nth n xs = map (\<lambda>i. xs ! (i * n)) [0..<(length xs + n - 1) div n]"
  by (rule nth_equalityI) (simp_all add: every_nth_length assms every_nth_nth)

lemma map_of_set_dir:
  "map_of (set_dir es d cs) x = (if x = d then map_option (\<lambda>_. Dir cs) (map_of es d) else map_of es x)"
  by (induction es) (auto simp: set_dir_def)

lemma kept_after_typed:
  assumes "distinct cs" and "0 < k"
  shows "sort (filter (\<lambda>f. suffix_of f = ext) (kept_after ext k cs))
         = every_nth k (sort (filter (\<lambda>f. suffix_of f = ext) cs))"
proof -
  define F where "F = sort (filter (\<lambda>f. suffix_of f = ext) cs)"
  define K where "K = every_nth k F"
  have setF: "set F = {c \<in> set cs. suffix_of c = ext}" by (auto simp: F_def)
  have dF: "distinct F" using assms(1) by (simp add: F_def)
  have sF: "sorted F" by (simp add: F_def)
  have subK: "set K \<subseteq> set F" unfolding K_def by (rule every_nth_subset)
  have kept: "kept_after ext k cs = filter (\<lambda>c. suffix_of c \<noteq> ext \<or> c \<in> set K) cs"
    unfolding kept_after_def Let_def F_def [symmetric] K_def [symmetric]
    by (rule filter_cong) (auto simp: setF)
  have "set (sort (filter (\<lambda>f. suffix_of f = ext) (kept_after ext k cs))) = set K"
    using subK by (auto simp: kept setF)
  moreover have "distinct (sort (filter (\<lambda>f. suffix_of f = ext) (kept_after ext k cs)))"
    using assms(1) by (simp add: kept)
  moreover have "sorted (sort (filter (\<lambda>f. suffix_of f = ext) (kept_after ext k cs)))"
    by simp
  moreover have "sorted K" "distinct K"
    using sF dF by (simp_all add: K_def every_nth_sorted every_nth_distinct)
  ultimately have "sort (filter (\<lambda>f. suffix_of f = ext) (kept_after ext k cs)) = K"
    by (intro sorted_distinct_set_unique)
  then show ?thesis by (simp add: K_def F_def)
qed

lemma kept_after_others:
  "filter (\<lambda>f. suffix_of f \<noteq> ext) (kept_after ext k cs) = filter (\<lambda>f. suffix_of f \<noteq> ext) cs"
  unfolding kept_after_def Let_def filter_filter
  by (rule filter_cong) auto

lemma kept_after_member:
  assumes "distinct cs" and "0 < k"
    and "i < length (sort (filter (\<lambda>f. suffix_of f = ext) cs))"
  shows "sort (filter (\<lambda>f. suffix_of f = ext) cs) ! i \<in> set (kept_after ext k cs) \<longleftrightarrow> k dvd i"
proof -
  define F where "F = sort (filter (\<lambda>f. suffix_of f = ext) cs)"
  define K where "K = every_nth k F"
  have setF: "set F = {c \<in> set cs. suffix_of c = ext}" by (auto simp: F_def)
  have dF: "distinct F" using assms(1) by (simp add: F_def)
  have i: "i < length F" using assms(3) by (simp add: F_def)
  then have Fi: "F ! i \<in> set F" by simp
  have kept: "kept_after ext k cs = filter (\<lambda>c. suffix_of c \<noteq> ext \<or> c \<in> set K) cs"
    unfolding kept_after_def Let_def F_def [symmetric] K_def [symmetric]
    by (rule filter_cong) (auto simp: setF)
  have lenK: "length K = (length F + k - 1) div k"
    by (simp add: K_def every_nth_length assms(2))
  have nthK: "K ! j = F ! (j * k)" if "j < length K" for j
    using that by (simp add: K_def every_nth_nth assms(2))
  have bound: "j * k < length F" if "j < length K" for j
  proof -
    from that have "Suc j \<le> (length F + k - 1) div k" by (simp add: lenK)
    then have "Suc j * k \<le> length F + k - 1"
      using assms(2) by (simp add: less_eq_div_iff_mult_less_eq)
    then show ?thesis using assms(2) by simp
  qed
  have "F ! i \<in> set K \<longleftrightarrow> k dvd i"
  proof
    assume "F ! i \<in> set K"
    then obtain j where j: "j < length K" "K ! j = F ! i"
      by (auto simp: in_set_conv_nth)
    then have "F ! (j * k) = F ! i" by (simp add: nthK)
    with dF bound [OF j(1)] i have "j * k = i"
      by (simp add: nth_eq_iff_index_eq)
    then show "k dvd i" by auto
  next
    assume "k dvd i"
    then obtain j where j: "i = j * k" by (auto simp: dvd_def mult.commute)
    have "j < length K"
    proof -
      have "j * k + k \<le> length F + k - 1" using i j assms(2) by simp
      then have "Suc j * k \<le> length F + k - 1" by (simp add: ac_simps)
      then have "Suc j \<le> (length F + k - 1) div k"
        using assms(2) by (simp add: less_eq_div_iff_mult_less_eq)
      then show ?thesis by (simp add: lenK)
    qed
    then have "K ! j \<in> set K" and "K ! j = F ! i"
      using nth_mem [of j K] nthK [of j] by (simp_all only: j)
    then show "F ! i \<in> set K" by simp
  qed
  moreover have "F ! i \<in> set (kept_after ext k cs) \<longleftrightarrow> F ! i \<in> set K"
    using Fi by (auto simp: kept setF)
  ultimately show ?thesis by (simp add: F_def)
qed

lemma subsample_dir_absent:
  "map_of es d = None \<Longrightarrow> subsample_dir es d ext n execute = (Inr (), es)"
  by (simp add: subsample_dir_def)

lemma subsample_dir_execute:
  "map_of es d = Some (Dir cs) \<Longrightarrow> 0 < n \<Longrightarrow>
   subsample_dir es d ext n True = (Inr (), set_dir es d (kept_after ext (nat n) cs))"
  by (simp add: subsample_dir_def iterdir_def slice_step_def kept_after_def Let_def)

lemma subsample_dir_step:
  assumes "0 < n" and "case map_of es d of Some (File _) \<Rightarrow> False | _ \<Rightarrow> True"
  shows "\<exists>es'. subsample_dir es d ext n True = (Inr (), es')
           \<and> (\<forall>x. x \<noteq> d \<longrightarrow> map_of es' x = map_of es x)
           \<and> (map_of es d = None \<longrightarrow> es' = es)
           \<and> (\<forall>cs. map_of es d = Some (Dir cs) \<longrightarrow>
                 map_of es' d = Some (Dir (kept_after ext (nat n) cs)))"
proof (cases "map_of es d")
  case None
  then show ?thesis by (simp add: subsample_dir_absent)
next
  case (Some nd)
  with assms(2) obtain cs where cs: "map_of es d = Some (Dir cs)"
    by (cases nd) auto
  show ?thesis
    using cs assms(1) by (simp add: subsample_dir_execute map_of_set_dir)
qed

lemma subsample_result:
  assumes n: "1 < n" and ok: "no_file_in_place_of_dir es"
  shows "\<exists>es'. subsample_scene_files (Some es) n True = (Inr True, Some es')
           \<and> (\<forall>d \<in> set keep_dirs. \<forall>cs. map_of es d = Some (Dir cs) \<longrightarrow>
                 map_of es' d = Some (Dir (kept_after (ext_of d) (nat n) cs)))"
proof -
  have pos: "0 < n" using n by simp
  have ok0: "case map_of es d of Some (File _) \<Rightarrow> False | _ \<Rightarrow> True" if "d \<in> set keep_dirs" for d
    using ok that by (simp add: no_file_in_place_of_dir_def)
  obtain es1 where es1: "subsample_dir es ''highres_depth'' ''.png'' n True = (Inr (), es1)"
      "\<forall>x. x \<noteq> ''highres_depth'' \<longrightarrow> map_of es1 x = map_of es x"
      "\<forall>cs. map_of es ''highres_depth'' = Some (Dir cs) \<longrightarrow>
         map_of es1 ''highres_depth'' = Some (Dir (kept_after ''.png'' (nat n) cs))"
    using subsample_dir_step [OF pos ok0, of "''highres_depth''" "''.png''"]
    by (auto simp: keep_dirs_def)
  have ok1: "case map_of es1 ''ultrawide'' of Some (File _) \<Rightarrow> False | _ \<Rightarrow> True"
    using ok0 [of "''ultrawide''"] es1(2) by (simp add: keep_dirs_def)
  obtain es2 where es2: "subsample_dir es1 ''ultrawide'' ''.png'' n True = (Inr (), es2)"
      "\<forall>x. x \<noteq> ''ultrawide'' \<longrightarrow> map_of es2 x = map_of es1 x"
      "\<forall>cs. map_of es1 ''ultrawide'' = Some (Dir cs) \<longrightarrow>
         map_of es2 ''ultrawide'' = Some (Dir (kept_after ''.png'' (nat n) cs))"
    using subsample_dir_step [OF pos ok1, of "''.png''"] by auto
  have ok2: "case map_of es2 ''ultrawide_intrinsics'' of Some (File _) \<Rightarrow> False | _ \<Rightarrow> True"
    using ok0 [of "''ultrawide_intrinsics''"] es1(2) es2(2) by (simp add: keep_dirs_def)
  obtain es3 where es3:
      "subsample_dir es2 ''ultrawide_intrinsics'' ''.pincam'' n True = (Inr (), es3)"
      "\<forall>x. x \<noteq> ''ultrawide_intrinsics'' \<longrightarrow> map_of es3 x = map_of es2 x"
      "map_of es2 ''ultrawide_intrinsics'' = None \<longrightarrow> es3 = es2"
      "\<forall>cs. map_of es2 ''ultrawide_intrinsics'' = Some (Dir cs) \<longrightarrow>
         map_of es3 ''ultrawide_intrinsics'' = Some (Dir (kept_after ''.pincam'' (nat n) cs))"
    using subsample_dir_step [OF pos ok2, of "''.pincam''"] by auto
  have run: "subsample_scene_files (Some es) n True = (Inr True, Some es3)"
    using es1(1) es2(1) es3(1,3) n by (auto simp: subsample_scene_files_def)
  have "map_of es3 d = Some (Dir (kept_after (ext_of d) (nat n) cs))"
    if "d \<in> set keep_dirs" and "map_of es d = Some (Dir cs)" for d cs
    using that es1(2,3) es2(2,3) es3(2,4) by (auto simp: keep_dirs_def ext_of_def)
  with run show ?thesis by blast
qed

lemma stem_suffix:
  assumes "suffix_of f = ext" and "ext \<noteq> []"
  shows "stem f @ ext = f"
proof (cases "rfind (CHR ''.'') f")
  case None
  with assms show ?thesis by (simp add: suffix_of_def)
next
  case (Some i)
  show ?thesis
  proof (cases "0 < i \<and> i + 1 < length f")
    case True
    with Some have "suffix_of f = drop i f" and "stem f = take i f"
      by (simp_all add: suffix_of_def stem_def)
    with assms(1) show ?thesis by (metis append_take_drop_id)
  next
    case False
    with Some have "suffix_of f = []" by (simp add: suffix_of_def)
    with assms show ?thesis by simp
  qed
qed

lemma matching_stems_same_count:
  assumes "distinct cs" and "distinct cs'"
    and "stem ` {f \<in> set cs. suffix_of f = ext} = stem ` {f \<in> set cs'. suffix_of f = ext'}"
    and "ext \<noteq> []" and "ext' \<noteq> []"
  shows "length (filter (\<lambda>f. suffix_of f = ext) cs) = length (filter (\<lambda>f. suffix_of f = ext') cs')"
proof -
  have inj: "inj_on stem {f \<in> set xs. suffix_of f = e}" if "e \<noteq> []" for xs e
  proof (rule inj_onI)
    fix x y assume "x \<in> {f \<in> set xs. suffix_of f = e}" "y \<in> {f \<in> set xs. suffix_of f = e}"
      and "stem x = stem y"
    then have "stem x @ e = x" and "stem y @ e = y" and "stem x = stem y"
      using stem_suffix [of x e] stem_suffix [of y e] that by blast+
    then show "x = y" by metis
  qed
  have len: "length (filter (\<lambda>f. suffix_of f = e) xs) = card (stem ` {f \<in> set xs. suffix_of f = e})"
    if "distinct xs" "e \<noteq> []" for xs e
  proof -
    have "length (filter (\<lambda>f. suffix_of f = e) xs) = card (set (filter (\<lambda>f. suffix_of f = e) xs))"
      using that(1) distinct_card [of "filter (\<lambda>f. suffix_of f = e) xs"] by simp
    also have "\<dots> = card {f \<in> set xs. suffix_of f = e}" by simp
    also have "\<dots> = card (stem ` {f \<in> set xs. suffix_of f = e})"
      using inj [OF that(2)] by (simp add: card_image)
    finally show ?thesis .
  qed
  show ?thesis
    unfolding len [OF assms(1,4)] len [OF assms(2,5)] assms(3) ..
qed

lemma remove_unmatched_dry: "snd (remove_unmatched ds c False es) = es"
  by (induction ds) (auto split: option.splits sum.splits)

lemma kind_set_dir:
  "map_of es d = Some (Dir cs) \<Longrightarrow>
   map_option is_dir (map_of (set_dir es d cs') x) = map_option is_dir (map_of es x)"
  by (auto simp: map_of_set_dir is_dir_def)

lemma remove_unmatched_outcome:
  "\<forall>d \<in> set ds. map_option is_dir (map_of es d) = map_option is_dir (map_of es' d) \<Longrightarrow>
   fst (remove_unmatched ds c ex es) = fst (remove_unmatched ds c' ex' es')"
proof (induction ds arbitrary: es es')
  case Nil
  then show ?case by simp
next
  case (Cons d ds)
  from Cons.prems have kd: "map_option is_dir (map_of es d) = map_option is_dir (map_of es' d)"
    by simp
  show ?case
  proof (cases "map_of es d")
    case None
    with kd have "map_of es' d = None" by simp
    with None show ?thesis by simp
  next
    case (Some nd)
    with kd obtain nd' where nd': "map_of es' d = Some nd'" "is_dir nd' = is_dir nd"
      by (cases "map_of es' d") auto
    show ?thesis
    proof (cases nd)
      case (File z)
      with nd'(2) obtain z' where "nd' = File z'" by (cases nd') (auto simp: is_dir_def)
      with File Some nd'(1) show ?thesis by (simp add: iterdir_def)
    next
      case (Dir cs)
      with nd'(2) obtain cs' where cs': "nd' = Dir cs'" by (cases nd') (auto simp: is_dir_def)
      define es2 where "es2 = (if ex then set_dir es d (filter (\<lambda>f. stem f \<in> c) cs) else es)"
      define es2' where "es2' = (if ex' then set_dir es' d (filter (\<lambda>f. stem f \<in> c') cs') else es')"
      have "map_option is_dir (map_of es2 x) = map_option is_dir (map_of es x)" for x
        using Some Dir by (simp add: es2_def kind_set_dir)
      moreover have "map_option is_dir (map_of es2' x) = map_option is_dir (map_of es' x)" for x
        using nd'(1) cs' by (simp add: es2'_def kind_set_dir)
      ultimately have "\<forall>x \<in> set ds. map_option is_dir (map_of es2 x) = map_option is_dir (map_of es2' x)"
        using Cons.prems by simp
      then have "fst (remove_unmatched ds c ex es2) = fst (remove_unmatched ds c' ex' es2')"
        by (rule Cons.IH)
      then show ?thesis
        using Some Dir nd'(1) cs' by (simp add: iterdir_def es2_def es2'_def)
    qed
  qed
qed

lemma map_of_filter_all:
  "(\<And>v. P (d, v)) \<Longrightarrow> map_of (filter P es) d = map_of es d"
  by (induction es) auto

lemma map_of_filter_keep:
  "d \<in> set keep_dirs \<Longrightarrow>
   map_of (filter (\<lambda>(n, nd). \<not> (is_dir nd \<and> n \<notin> set keep_dirs)) es) d = map_of es d"
  by (rule map_of_filter_all) simp

lemma clean_dry_run:
  "clean_scene_directories s False = (fst (clean_scene_directories s True), s)"
proof (cases s)
  case None
  then show ?thesis by (simp add: clean_scene_directories_def)
next
  case (Some es)
  define es1 where "es1 = filter (\<lambda>(n, nd). \<not> (is_dir nd \<and> n \<notin> set keep_dirs)) es"
  have same: "map_of es1 d = map_of es d" if "d \<in> set keep_dirs" for d
    unfolding es1_def using that by (rule map_of_filter_keep)
  have missing: "filter (\<lambda>d. map_of es1 d = None) keep_dirs = filter (\<lambda>d. map_of es d = None) keep_dirs"
    by (rule filter_cong) (simp_all add: same)
  have "fst (remove_unmatched keep_dirs (common_files es) False es)
        = fst (remove_unmatched keep_dirs (common_files es1) True es1)"
    by (rule remove_unmatched_outcome) (simp add: same)
  moreover have "snd (remove_unmatched keep_dirs (common_files es) False es) = es"
    by (rule remove_unmatched_dry)
  moreover have "clean_scene_directories (Some es) True =
      (if filter (\<lambda>d. map_of es1 d = None) keep_dirs \<noteq> [] then (Inr False, Some es1)
       else case remove_unmatched keep_dirs (common_files es1) True es1 of
              (Inl e, es2) \<Rightarrow> (Inl e, Some es2)
            | (Inr _, es2) \<Rightarrow> (Inr True, Some es2))"
    by (simp add: clean_scene_directories_def es1_def Let_def)
  moreover have "clean_scene_directories (Some es) False =
      (if filter (\<lambda>d. map_of es d = None) keep_dirs \<noteq> [] then (Inr False, Some es)
       else case remove_unmatched keep_dirs (common_files es) False es of
              (Inl e, es2) \<Rightarrow> (Inl e, Some es2)
            | (Inr _, es2) \<Rightarrow> (Inr True, Some es2))"
    by (simp add: clean_scene_directories_def Let_def)
  ultimately show ?thesis
    using missing
    by (cases "remove_unmatched keep_dirs (common_files es) False es";
        cases "remove_unmatched keep_dirs (common_files es1) True es1")
       (auto simp: Some split: sum.splits)
qed

lemma subsample_dir_dry:
  "subsample_dir es d ext n False = (fst (subsample_dir es d ext n True), es)"
  by (simp add: subsample_dir_def Let_def split: option.splits sum.splits)

lemma subsample_dir_outcome:
  "map_of es d = map_of es' d \<Longrightarrow>
   fst (subsample_dir es d ext n ex) = fst (subsample_dir es' d ext n ex')"
  by (simp add: subsample_dir_def Let_def split: option.splits sum.splits)

lemma subsample_dir_frame:
  "x \<noteq> d \<Longrightarrow> map_of (snd (subsample_dir es d ext n ex)) x = map_of es x"
  by (simp add: subsample_dir_def Let_def map_of_set_dir split: option.splits sum.splits)

lemma subsample_dry_run:
  "subsample_scene_files s n False = (fst (subsample_scene_files s n True), s)"
proof (cases s)
  case None
  then show ?thesis by (simp add: subsample_scene_files_def)
next
  case (Some es)
  obtain r1 es1 where s1: "subsample_dir es ''highres_depth'' ''.png'' n True = (r1, es1)"
    by (cases "subsample_dir es ''highres_depth'' ''.png'' n True")
  obtain r2 es2 where s2: "subsample_dir es1 ''ultrawide'' ''.png'' n True = (r2, es2)"
    by (cases "subsample_dir es1 ''ultrawide'' ''.png'' n True")
  obtain r3 es3 where s3: "subsample_dir es2 ''ultrawide_intrinsics'' ''.pincam'' n True = (r3, es3)"
    by (cases "subsample_dir es2 ''ultrawide_intrinsics'' ''.pincam'' n True")
  have d1: "subsample_dir es ''highres_depth'' ''.png'' n False = (r1, es)"
    by (simp add: subsample_dir_dry s1)
  have m1: "map_of es1 x = map_of es x" if "x \<noteq> ''highres_depth''" for x
    using subsample_dir_frame [OF that, of es "''.png''" n True] by (simp add: s1)
  have m2: "map_of es2 x = map_of es1 x" if "x \<noteq> ''ultrawide''" for x
    using subsample_dir_frame [OF that, of es1 "''.png''" n True] by (simp add: s2)
  have d2: "subsample_dir es ''ultrawide'' ''.png'' n False = (r2, es)"
    using subsample_dir_outcome [of es "''ultrawide''" es1 "''.png''" n True True]
    by (simp add: subsample_dir_dry s2 m1)
  have m: "map_of es2 ''ultrawide_intrinsics'' = map_of es ''ultrawide_intrinsics''"
    by (simp add: m1 m2)
  have d3: "subsample_dir es ''ultrawide_intrinsics'' ''.pincam'' n False = (r3, es)"
    using subsample_dir_outcome [of es "''ultrawide_intrinsics''" es2 "''.pincam''" n True True]
    by (simp add: subsample_dir_dry s3 m)
  show ?thesis
    by (auto simp: Some subsample_scene_files_def s1 s2 s3 d1 d2 d3 m split: sum.splits)
qed

lemmas subsample_defs =
  subsample_scene_files_def subsample_dir_def iterdir_def slice_step_def set_dir_def
  suffix_of_def rfind_def

text \<open>
  Claim C6, as stated, fails for a directory that holds a file of another type: only the
  files with the suffix of the directory's type are counted, sorted and thinned out. Of
  the four files below, three are left by a subsampling with factor 2, not two.
\<close>

theorem subsample_counterexample:
  "length (dir_files (Some scene_with_stray_file) ''highres_depth'') = 4
   \<and> subsample_scene_files (Some scene_with_stray_file) 2 True
      = (Inr True, Some [(''highres_depth'', Dir [''f0.png'', ''f2.png'', ''readme.txt''])])"
  by (simp add: scene_with_stray_file_def dir_files_def lookup_def entries_def subsample_defs)

text \<open>
  Claim C6, amended. Let a scene have no regular file in the place of a kept directory,
  let \<open>d\<close> be one of its kept directories, holding \<open>M\<close> files of its type (\<^verbatim>\<open>.png\<close>
  for \<^verbatim>\<open>highres_depth\<close> and \<^verbatim>\<open>ultrawide\<close>, \<^verbatim>\<open>.pincam\<close> for
  \<^verbatim>\<open>ultrawide_intrinsics\<close>), and let \<open>n > 1\<close>. Then subsampling in execute mode returns
  true and leaves in \<open>d\<close> exactly \<open>\<lceil>M / n\<rceil>\<close> files of that type, those at the indices
  \<open>0, n, 2n, \<dots>\<close> of their name-sorted list, and every file of another type. The
  retained indices are the multiples of \<open>n\<close> below \<open>M\<close>; so they are the same in every
  kept directory whose files of its type have the same stems as those of \<open>d\<close>.
\<close>

theorem subsample_keeps_every_nth:
  assumes "1 < n" and "no_file_in_place_of_dir es" and "d \<in> set keep_dirs"
    and "lookup (Some es) d = Some (Dir cs)" and "distinct cs"
  shows "case subsample_scene_files (Some es) n True of
           (r, s') \<Rightarrow>
             r = Inr True
             \<and> typed_files s' d =
                 map (\<lambda>i. typed_files (Some es) d ! (i * nat n))
                   [0..<(length (typed_files (Some es) d) + nat n - 1) div nat n]
             \<and> length (typed_files s' d) = (length (typed_files (Some es) d) + nat n - 1) div nat n
             \<and> filter (\<lambda>f. suffix_of f \<noteq> ext_of d) (dir_files s' d)
                 = filter (\<lambda>f. suffix_of f \<noteq> ext_of d) cs
             \<and> retained (Some es) s' d
                 = filter (\<lambda>i. nat n dvd i) [0..<length (typed_files (Some es) d)]
             \<and> (\<forall>d' \<in> set keep_dirs. \<forall>cs'.
                   lookup (Some es) d' = Some (Dir cs') \<and> distinct cs'
                   \<and> stem ` set (typed_files (Some es) d') = stem ` set (typed_files (Some es) d)
                   \<longrightarrow> retained (Some es) s' d' = retained (Some es) s' d)"
proof -
  have k: "0 < nat n" using assms(1) by simp
  obtain es' where run: "subsample_scene_files (Some es) n True = (Inr True, Some es')"
    and after: "\<forall>d \<in> set keep_dirs. \<forall>cs. map_of es d = Some (Dir cs) \<longrightarrow>
                 map_of es' d = Some (Dir (kept_after (ext_of d) (nat n) cs))"
    using subsample_result [OF assms(1,2)] by blast
  have ret: "retained (Some es) (Some es') x
               = filter (\<lambda>i. nat n dvd i) [0..<length (typed_files (Some es) x)]"
    if x: "x \<in> set keep_dirs" "lookup (Some es) x = Some (Dir xs)" "distinct xs" for x xs
  proof -
    have l': "lookup (Some es') x = Some (Dir (kept_after (ext_of x) (nat n) xs))"
      using after x(1,2) by (simp add: lookup_def entries_def)
    show ?thesis
      unfolding retained_def typed_files_def dir_files_def l' x(2)
      by (rule filter_cong) (simp_all add: kept_after_member [OF x(3) k])
  qed
  have l': "lookup (Some es') d = Some (Dir (kept_after (ext_of d) (nat n) cs))"
    using after assms(3,4) by (simp add: lookup_def entries_def)
  have typed: "typed_files (Some es') d = every_nth (nat n) (typed_files (Some es) d)"
    by (simp add: typed_files_def dir_files_def l' assms(4) kept_after_typed [OF assms(5) k])
  have others: "filter (\<lambda>f. suffix_of f \<noteq> ext_of d) (dir_files (Some es') d)
                 = filter (\<lambda>f. suffix_of f \<noteq> ext_of d) cs"
    by (simp add: dir_files_def l' kept_after_others)
  have same: "retained (Some es) (Some es') d' = retained (Some es) (Some es') d"
    if d': "d' \<in> set keep_dirs" "lookup (Some es) d' = Some (Dir cs')" "distinct cs'"
      "stem ` set (typed_files (Some es) d') = stem ` set (typed_files (Some es) d)" for d' cs'
  proof -
    have ne: "ext_of d \<noteq> []" "ext_of d' \<noteq> []" by (simp_all add: ext_of_def)
    have "stem ` {f \<in> set cs'. suffix_of f = ext_of d'} = stem ` {f \<in> set cs. suffix_of f = ext_of d}"
      using d'(4) by (simp add: typed_files_def dir_files_def d'(2) assms(4))
    then have "length (typed_files (Some es) d') = length (typed_files (Some es) d)"
      using matching_stems_same_count [OF d'(3) assms(5) _ ne(2,1)]
      by (simp add: typed_files_def dir_files_def d'(2) assms(4))
    then show ?thesis
      by (simp add: ret [OF d'(1-3)] ret [OF assms(3-5)])
  qed
  show ?thesis
    unfolding run prod.case
    using typed others ret [OF assms(3-5)] same
    by (simp add: every_nth_length [OF k] every_nth_map [OF k])
qed

theorem subsample_keeps_every_nth_witness:
  "(1::int) < 2 \<and> no_file_in_place_of_dir five_frames
   \<and> ''highres_depth'' \<in> set keep_dirs
   \<and> lookup (Some five_frames) ''highres_depth''
        = Some (Dir [''f3.png'', ''f0.png'', ''f4.png'', ''f1.png'', ''f2.png''])
   \<and> distinct [''f3.png'', ''f0.png'', ''f4.png'', ''f1.png'', ''f2.png'']
   \<and> typed_files (snd (subsample_scene_files (Some five_frames) 2 True)) ''highres_depth''
        = [''f0.png'', ''f2.png'', ''f4.png'']
   \<and> retained (Some five_frames) (snd (subsample_scene_files (Some five_frames) 2 True))
        ''ultrawide_intrinsics'' = [0, 2, 4]"
proof -
  have h: "(1::int) < 2" "no_file_in_place_of_dir five_frames"
    "''highres_depth'' \<in> set keep_dirs"
    "lookup (Some five_frames) ''highres_depth''
        = Some (Dir [''f3.png'', ''f0.png'', ''f4.png'', ''f1.png'', ''f2.png''])"
    "distinct [''f3.png'', ''f0.png'', ''f4.png'', ''f1.png'', ''f2.png'']"
    by (simp_all add: five_frames_def no_file_in_place_of_dir_def keep_dirs_def lookup_def
        entries_def)
  have run: "subsample_scene_files (Some five_frames) 2 True =
      (Inr True,
       Some [(''highres_depth'', Dir [''f0.png'', ''f4.png'', ''f2.png'']),
             (''ultrawide'', Dir [''f0.png'', ''f2.png'', ''f4.png'']),
             (''ultrawide_intrinsics'', Dir [''f0.pincam'', ''f2.pincam'', ''f4.pincam''])])"
    by (simp add: five_frames_def subsample_defs)
  have before: "typed_files (Some five_frames) ''highres_depth''
      = [''f0.png'', ''f1.png'', ''f2.png'', ''f3.png'', ''f4.png'']"
    "typed_files (Some five_frames) ''ultrawide_intrinsics''
      = [''f0.pincam'', ''f1.pincam'', ''f2.pincam'', ''f3.pincam'', ''f4.pincam'']"
    by (simp_all add: typed_files_def dir_files_def lookup_def entries_def five_frames_def
        ext_of_def suffix_of_def rfind_def)
  have stems: "stem ` set [''f0.pincam'', ''f1.pincam'', ''f2.pincam'', ''f3.pincam'', ''f4.pincam'']
      = stem ` set [''f0.png'', ''f1.png'', ''f2.png'', ''f3.png'', ''f4.png'']"
    by (simp add: stem_def rfind_def)
  have intr: "''ultrawide_intrinsics'' \<in> set keep_dirs"
    "lookup (Some five_frames) ''ultrawide_intrinsics''
       = Some (Dir [''f0.pincam'', ''f1.pincam'', ''f2.pincam'', ''f3.pincam'', ''f4.pincam''])"
    by (simp_all add: five_frames_def keep_dirs_def lookup_def entries_def)
  have five: "[0..<5] = [0, 1, 2, 3, 4::nat]" "[0..<3] = [0, 1, 2::nat]"
    by (simp_all add: upt_rec)
  from subsample_keeps_every_nth [OF h]
  have "typed_files (snd (subsample_scene_files (Some five_frames) 2 True)) ''highres_depth''
        = [''f0.png'', ''f2.png'', ''f4.png'']"
    and "retained (Some five_frames) (snd (subsample_scene_files (Some five_frames) 2 True))
        ''ultrawide_intrinsics'' = [0, 2, 4]"
    using intr stems by (simp_all add: run before five)
  with h show ?thesis by simp
qed

text \<open>
  Claim C9. A dry run of \<^verbatim>\<open>clean_scene_directories\<close> or of
  \<^verbatim>\<open>subsample_scene_files\<close> leaves the scene directory as it is and has the outcome
  (the boolean returned, or the exception raised) of the run that executes.
\<close>

theorem dry_run_changes_nothing:
  "clean_scene_directories s False = (fst (clean_scene_directories s True), s)
   \<and> subsample_scene_files s n False = (fst (subsample_scene_files s n True), s)"
  by (simp add: clean_dry_run subsample_dry_run)

section \<open>Properties of processing one scene\<close>

lemma download_assets_effect:
  "download_log (snd (download_assets env sp v assets w))
     = download_log w @ map (\<lambda>x. (sp, v, x)) assets
   \<and> catalog (snd (download_assets env sp v assets w)) = catalog w
   \<and> served (snd (download_assets env sp v assets w)) = served w
   \<and> (\<forall>k. k \<noteq> (sp, v) \<longrightarrow> scenes (snd (download_assets env sp v assets w)) k = scenes w k)"
proof (induction assets arbitrary: w)
  case Nil
  then show ?case by simp
next
  case (Cons a assets)
  obtain ok s' e' where d: "download_asset env (net w) sp v a (scenes w (sp, v)) = (ok, s', e')"
    by (cases "download_asset env (net w) sp v a (scenes w (sp, v))")
  define w1 where
    "w1 = (put_scene w (sp, v) s')\<lparr>net := e', download_log := download_log w @ [(sp, v, a)]\<rparr>"
  obtain oks w2 where r: "download_assets env sp v assets w1 = (oks, w2)"
    by (cases "download_assets env sp v assets w1")
  have run: "download_assets env sp v (a # assets) w = (ok # oks, w2)"
    by (simp add: d r w1_def [symmetric])
  have "download_log w2 = download_log w1 @ map (\<lambda>x. (sp, v, x)) assets"
    and "catalog w2 = catalog w1" and "served w2 = served w1"
    and "\<forall>k. k \<noteq> (sp, v) \<longrightarrow> scenes w2 k = scenes w1 k"
    using Cons.IH [of w1] by (simp_all add: r)
  then have "download_log w2 = download_log w @ map (\<lambda>x. (sp, v, x)) (a # assets)
      \<and> catalog w2 = catalog w \<and> served w2 = served w
      \<and> (\<forall>k. k \<noteq> (sp, v) \<longrightarrow> scenes w2 k = scenes w k)"
    by (simp add: w1_def put_scene_def)
  then show ?case
    unfolding run snd_conv .
qed

lemma remove_scene_directory_frame:
  "k' \<noteq> k \<Longrightarrow> scenes (snd (remove_scene_directory env w k)) k' = scenes w k'"
  by (simp add: remove_scene_directory_def put_scene_def)

lemma remove_scene_directory_static:
  "catalog (snd (remove_scene_directory env w k)) = catalog w
   \<and> served (snd (remove_scene_directory env w k)) = served w
   \<and> download_log (snd (remove_scene_directory env w k)) = download_log w
   \<and> net (snd (remove_scene_directory env w k)) = net w"
  by (simp add: remove_scene_directory_def put_scene_def)

lemma skip_check_world:
  "snd (skip_check env w a) = w
   \<or> snd (skip_check env w a) = snd (remove_scene_directory env w (scene_key a))"
proof (cases "\<not> arg_force_reprocess a \<and> arg_redownload_attempt a = 0")
  case False
  then show ?thesis by (auto simp: skip_check_def)
next
  case True
  show ?thesis
  proof (cases "should_skip_scene (catalog w) (scenes w (scene_key a)) (arg_video_id a)
                  (arg_assets a) (arg_subsample_n a)")
    case (Inl e)
    with True show ?thesis by (simp add: skip_check_def)
  next
    case (Inr p)
    obtain action rsn where p: "p = (action, rsn)" by (cases p)
    show ?thesis
      using True Inr p by (cases action) (simp_all add: skip_check_def split: prod.splits)
  qed
qed

lemma skip_check_falls_through:
  assumes "fst (skip_check env w a) = Inr None"
  shows "skip_check env w a = (Inr None, w)"
proof (cases "\<not> arg_force_reprocess a \<and> arg_redownload_attempt a = 0")
  case False
  then show ?thesis by (auto simp: skip_check_def)
next
  case True
  show ?thesis
  proof (cases "should_skip_scene (catalog w) (scenes w (scene_key a)) (arg_video_id a)
                  (arg_assets a) (arg_subsample_n a)")
    case (Inl e)
    with True assms show ?thesis by (simp add: skip_check_def)
  next
    case (Inr p)
    obtain action rsn where p: "p = (action, rsn)" by (cases p)
    show ?thesis
      using True Inr p assms
      by (cases action) (simp_all add: skip_check_def split: prod.splits if_splits)
  qed
qed

lemma skip_check_video_id:
  assumes "fst (skip_check env w a) = Inr (Some r)"
  shows "video_id r = arg_video_id a"
proof (cases "\<not> arg_force_reprocess a \<and> arg_redownload_attempt a = 0")
  case False
  with assms show ?thesis by (auto simp: skip_check_def)
next
  case True
  show ?thesis
  proof (cases "should_skip_scene (catalog w) (scenes w (scene_key a)) (arg_video_id a)
                  (arg_assets a) (arg_subsample_n a)")
    case (Inl e)
    with True assms show ?thesis by (simp add: skip_check_def)
  next
    case (Inr p)
    obtain action rsn where p: "p = (action, rsn)" by (cases p)
    show ?thesis
      using True Inr p assms
      by (cases action)
         (auto simp: skip_check_def make_result_def split: prod.splits if_splits)
  qed
qed

lemma run_download_nonempty:
  "assets \<noteq> [] \<Longrightarrow>
   run_download env w v sp assets =
     (Inr (list_all (\<lambda>ok. ok) (fst (download_assets env sp v assets w))),
      snd (download_assets env sp v assets w))"
  by (simp add: run_download_def split: prod.splits)

lemma run_download_world:
  "snd (run_download env w v sp assets) = snd (download_assets env sp v assets w)"
  by (cases assets) (simp_all add: run_download_def split: prod.splits)

lemma download_phase_skipped:
  "arg_skip_download a \<and> arg_redownload_attempt a = 0 \<Longrightarrow> download_phase env w a = (Inr None, w)"
  by (simp add: download_phase_def)

lemma download_phase_world:
  "snd (download_phase env w a) =
     (if \<not> arg_skip_download a \<or> 0 < arg_redownload_attempt a
      then snd (download_assets env (arg_split a) (arg_video_id a) (arg_assets a) w)
      else w)"
proof (cases "\<not> arg_skip_download a \<or> 0 < arg_redownload_attempt a")
  case False
  then show ?thesis by (simp add: download_phase_def)
next
  case True
  obtain r w' where rd: "run_download env w (arg_video_id a) (arg_split a) (arg_assets a) = (r, w')"
    by (cases "run_download env w (arg_video_id a) (arg_split a) (arg_assets a)")
  have w': "w' = snd (download_assets env (arg_split a) (arg_video_id a) (arg_assets a) w)"
    using run_download_world [of env w "arg_video_id a" "arg_split a" "arg_assets a"]
    by (simp add: rd)
  have "snd (download_phase env w a) = w'"
    using True by (cases r) (auto simp: download_phase_def rd split: sum.splits prod.splits)
  with True w' show ?thesis by auto
qed

lemma download_phase_failed:
  assumes "\<not> arg_skip_download a \<or> 0 < arg_redownload_attempt a" and "arg_assets a \<noteq> []"
    and "\<not> list_all (\<lambda>ok. ok) (fst (download_assets env (arg_split a) (arg_video_id a) (arg_assets a) w))"
  shows "download_phase env w a =
     (Inr (Some \<lparr>video_id = arg_video_id a, success = False,
                 error = Some (Literal (if 0 < arg_redownload_attempt a
                                        then ''Redownload failed - scene not removed''
                                        else ''Download failed'')),
                 phase = Some (if 0 < arg_redownload_attempt a then ''redownload_failed''
                               else ''download''),
                 reason = None\<rparr>),
      snd (download_assets env (arg_split a) (arg_video_id a) (arg_assets a) w))"
  using assms by (auto simp: download_phase_def run_download_nonempty make_result_def)

lemma download_phase_succeeded:
  assumes "\<not> arg_skip_download a \<or> 0 < arg_redownload_attempt a" and "arg_assets a \<noteq> []"
    and "list_all (\<lambda>ok. ok) (fst (download_assets env (arg_split a) (arg_video_id a) (arg_assets a) w))"
    and "fst (download_phase env w a) = Inr (Some r)"
  shows "phase r = Some ''removed_missing_intrinsics''"
proof -
  define w' where "w' = snd (download_assets env (arg_split a) (arg_video_id a) (arg_assets a) w)"
  show ?thesis
  proof (cases "validate_scene_download (scenes w' (scene_key a)) (arg_assets a)")
    case (Inl e)
    with assms show ?thesis
      by (auto simp: download_phase_def run_download_nonempty w'_def split: if_splits)
  next
    case (Inr p)
    obtain st c m where p: "p = (st, c, m)" by (cases p)
    with Inr assms show ?thesis
      by (auto simp: download_phase_def run_download_nonempty w'_def make_result_def
          split: if_splits)
  qed
qed

lemma processing_phase_log: "download_log (snd (processing_phase w a)) = download_log w"
  by (cases "run_clean_subsample (scenes w (scene_key a)) (arg_subsample_n a) (arg_execute a)")
     (auto simp: processing_phase_def put_scene_def split: sum.splits)

lemma processing_phase_frame:
  "k \<noteq> scene_key a \<Longrightarrow> scenes (snd (processing_phase w a)) k = scenes w k"
  by (cases "run_clean_subsample (scenes w (scene_key a)) (arg_subsample_n a) (arg_execute a)")
     (auto simp: processing_phase_def put_scene_def split: sum.splits)

lemma processing_phase_static:
  "catalog (snd (processing_phase w a)) = catalog w \<and> served (snd (processing_phase w a)) = served w"
  by (cases "run_clean_subsample (scenes w (scene_key a)) (arg_subsample_n a) (arg_execute a)")
     (auto simp: processing_phase_def put_scene_def split: sum.splits)

lemma processing_phase_result:
  "fst (processing_phase w a) = Inr r \<Longrightarrow>
   video_id r = arg_video_id a \<and> (phase r = Some ''processing'' \<or> phase r = Some ''completed'')"
  by (cases "run_clean_subsample (scenes w (scene_key a)) (arg_subsample_n a) (arg_execute a)")
     (auto simp: processing_phase_def make_result_def split: sum.splits if_splits)

text \<open>The three ways in which the body ends.\<close>

lemma try_body_ends:
  "(\<exists>x. fst (skip_check env w a) = x \<and> x \<noteq> Inr None
        \<and> try_body env w a = (map_sum id the x, snd (skip_check env w a)))
   \<or> (fst (skip_check env w a) = Inr None
        \<and> (\<exists>x. fst (download_phase env w a) = x \<and> x \<noteq> Inr None
               \<and> try_body env w a = (map_sum id the x, snd (download_phase env w a))))
   \<or> (fst (skip_check env w a) = Inr None \<and> fst (download_phase env w a) = Inr None
        \<and> try_body env w a = processing_phase (snd (download_phase env w a)) a)"
proof (cases "fst (skip_check env w a) = Inr None")
  case True
  then have s: "skip_check env w a = (Inr None, w)" by (rule skip_check_falls_through)
  obtain x w2 where d: "download_phase env w a = (x, w2)" by (cases "download_phase env w a")
  show ?thesis
  proof (cases x)
    case (Inl e)
    then show ?thesis by (simp add: try_body_def s d)
  next
    case (Inr ro)
    then show ?thesis by (cases ro) (simp_all add: try_body_def s d)
  qed
next
  case False
  obtain x w1 where s: "skip_check env w a = (x, w1)" by (cases "skip_check env w a")
  show ?thesis
  proof (cases x)
    case (Inl e)
    then show ?thesis by (simp add: try_body_def s)
  next
    case (Inr ro)
    with False s show ?thesis by (cases ro) (simp_all add: try_body_def)
  qed
qed

lemma skip_check_frame:
  "k \<noteq> scene_key a \<Longrightarrow> scenes (snd (skip_check env w a)) k = scenes w k"
  using skip_check_world [of env w a] remove_scene_directory_frame [of k "scene_key a" env w]
  by auto

lemma skip_check_static:
  "catalog (snd (skip_check env w a)) = catalog w
   \<and> served (snd (skip_check env w a)) = served w
   \<and> download_log (snd (skip_check env w a)) = download_log w"
  using skip_check_world [of env w a] remove_scene_directory_static [of env w "scene_key a"]
  by auto

lemma download_phase_frame:
  "k \<noteq> scene_key a \<Longrightarrow> scenes (snd (download_phase env w a)) k = scenes w k"
  using download_assets_effect [of env "arg_split a" "arg_video_id a" "arg_assets a" w]
  by (cases k) (auto simp: download_phase_world scene_key_def)

lemma download_phase_static:
  "catalog (snd (download_phase env w a)) = catalog w
   \<and> served (snd (download_phase env w a)) = served w"
  using download_assets_effect [of env "arg_split a" "arg_video_id a" "arg_assets a" w]
  by (simp add: download_phase_world)

lemma download_phase_video_id:
  assumes "fst (download_phase env w a) = Inr (Some r)"
  shows "video_id r = arg_video_id a"
proof -
  obtain x w' where rd: "run_download env w (arg_video_id a) (arg_split a) (arg_assets a) = (x, w')"
    by (cases "run_download env w (arg_video_id a) (arg_split a) (arg_assets a)")
  show ?thesis
  proof (cases x)
    case (Inl e)
    with assms rd show ?thesis by (auto simp: download_phase_def split: if_splits)
  next
    case (Inr ok)
    show ?thesis
    proof (cases "validate_scene_download (scenes w' (scene_key a)) (arg_assets a)")
      case (Inl e)
      with assms rd Inr show ?thesis
        by (auto simp: download_phase_def make_result_def split: if_splits)
    next
      case (Inr p)
      obtain st c m where p: "p = (st, c, m)" by (cases p)
      with assms rd \<open>x = Inr ok\<close> Inr show ?thesis
        by (auto simp: download_phase_def make_result_def split: if_splits)
    qed
  qed
qed

lemma try_body_frame:
  assumes "k \<noteq> scene_key a"
  shows "scenes (snd (try_body env w a)) k = scenes w k"
  using try_body_ends [of env w a] skip_check_frame [OF assms, of env w]
    download_phase_frame [OF assms, of env w]
    processing_phase_frame [OF assms, of "snd (download_phase env w a)"]
  by auto

lemma try_body_static:
  "catalog (snd (try_body env w a)) = catalog w \<and> served (snd (try_body env w a)) = served w"
  using try_body_ends [of env w a] skip_check_static [of env w a]
    download_phase_static [of env w a]
    processing_phase_static [of "snd (download_phase env w a)" a]
  by auto

lemma try_body_video_id:
  assumes "fst (try_body env w a) = Inr r"
  shows "video_id r = arg_video_id a"
proof -
  consider
    (skip) x where "fst (skip_check env w a) = x" "x \<noteq> Inr None"
      "try_body env w a = (map_sum id the x, snd (skip_check env w a))"
  | (download) x where "fst (download_phase env w a) = x" "x \<noteq> Inr None"
      "try_body env w a = (map_sum id the x, snd (download_phase env w a))"
  | (processing) "try_body env w a = processing_phase (snd (download_phase env w a)) a"
    using try_body_ends [of env w a] by blast
  then show ?thesis
  proof cases
    case skip
    with assms obtain ro where "x = Inr ro" "ro \<noteq> None" "the ro = r"
      by (cases x) auto
    then have "fst (skip_check env w a) = Inr (Some r)" using skip(1) by auto
    then show ?thesis by (rule skip_check_video_id)
  next
    case download
    with assms obtain ro where "x = Inr ro" "ro \<noteq> None" "the ro = r"
      by (cases x) auto
    then have "fst (download_phase env w a) = Inr (Some r)" using download(1) by auto
    then show ?thesis by (rule download_phase_video_id)
  next
    case processing
    with assms show ?thesis
      using processing_phase_result [of "snd (download_phase env w a)" a r] by simp
  qed
qed

lemma process_single_scene_world: "snd (process_single_scene env w a) = snd (try_body env w a)"
  by (simp add: process_single_scene_def split: prod.splits sum.splits)

lemma process_single_scene_frame:
  "k \<noteq> scene_key a \<Longrightarrow> scenes (snd (process_single_scene env w a)) k = scenes w k"
  by (simp add: process_single_scene_world try_body_frame)

lemma process_single_scene_static:
  "catalog (snd (process_single_scene env w a)) = catalog w
   \<and> served (snd (process_single_scene env w a)) = served w"
  by (simp add: process_single_scene_world try_body_static)

lemma process_single_scene_video_id:
  "video_id (fst (process_single_scene env w a)) = arg_video_id a"
proof (cases "try_body env w a")
  case (Pair x w')
  show ?thesis
  proof (cases x)
    case (Inl e)
    with Pair show ?thesis by (simp add: process_single_scene_def)
  next
    case (Inr r)
    with Pair try_body_video_id [of env w a r] show ?thesis
      by (simp add: process_single_scene_def)
  qed
qed

lemma process_single_scene_raised:
  "try_body env w a = (Inl e, w') \<Longrightarrow>
   process_single_scene env w a =
     (\<lparr>video_id = arg_video_id a, success = False, error = Some (Str_of e),
       phase = Some ''exception'', reason = None\<rparr>, w')"
  by (simp add: process_single_scene_def)

lemma process_single_scene_returned:
  "try_body env w a = (Inr r, w') \<Longrightarrow> process_single_scene env w a = (r, w')"
  by (simp add: process_single_scene_def)

lemma process_single_scene_phase:
  "phase (fst (process_single_scene env w a)) = Some ''exception''
   \<or> (\<exists>r. fst (try_body env w a) = Inr r \<and> fst (process_single_scene env w a) = r)"
  by (cases "try_body env w a"; cases "fst (try_body env w a)")
     (auto simp: process_single_scene_def)

lemmas process_defs =
  process_single_scene_def try_body_def skip_check_def download_phase_def processing_phase_def
  run_download_def run_clean_subsample_def clean_scene_directories_def make_result_def
  scene_key_def put_scene_def remove_scene_directory_def

lemma download_phase_no_worker:
  assumes "\<not> arg_skip_download a \<or> 0 < arg_redownload_attempt a" and "arg_assets a = []"
  shows "download_phase env w a = (Inl (ValueError ''max_workers must be greater than 0''), w)"
  using assms by (auto simp: download_phase_def run_download_def)

lemma failed_request_nonempty:
  "\<not> list_all (\<lambda>ok. ok) (fst (download_assets env sp v assets w)) \<Longrightarrow> assets \<noteq> []"
  by (cases assets) auto

text \<open>
  The two conditions of the first part say which arguments are meant: without a worker
  the thread pool of \<^verbatim>\<open>run_download\<close> raises, and the step tests for a positive
  counter, which is the same as a counter other than 0 only from 0 upwards.
\<close>

lemma download_step_limits:
  "process_single_scene idle_env empty_disk (example_args\<lparr>arg_assets := []\<rparr>)
      = (\<lparr>video_id = ''41069021'', success = False,
          error = Some (Str_of (ValueError ''max_workers must be greater than 0'')),
          phase = Some ''exception'', reason = None\<rparr>, empty_disk)
   \<and> download_phase idle_env empty_disk
        (example_args\<lparr>arg_skip_download := True, arg_redownload_attempt := - 1\<rparr>)
      = (Inr None, empty_disk)"
  by (simp add: example_args_def empty_disk_def idle_env_def process_defs should_skip_scene_def)

text \<open>
  Claim C4. The download step of \<^verbatim>\<open>process_single_scene\<close> is the block that follows
  the skip check, so the claim is about the calls in which the skip check lets the scene
  through. Whether the step ran is read off the list of download requests.

  \<^item> For the arguments that \<^verbatim>\<open>main\<close> passes, a non-empty asset list (the command line
    option takes one or more assets) and an attempt counter that is not negative (0, 1
    or 2, see \<open>tasks_of_main\<close>), the step is skipped, that is, no download is
    requested, if and only if \<^verbatim>\<open>skip_download\<close> is set and \<^verbatim>\<open>redownload_attempt\<close> is 0.
  \<^item> When the step runs, every asset is requested once, in the order of the list, and
    for a non-empty list \<^verbatim>\<open>run_download\<close> returns whether every request succeeded.
  \<^item> When a request fails, the function returns a failure with the phase
    \<^verbatim>\<open>redownload_failed\<close> for a positive counter and \<^verbatim>\<open>download\<close> otherwise, so
    \<^verbatim>\<open>download\<close> for the counter 0.
  \<^item> When no request fails, the result has neither of these two phases.
\<close>

theorem download_step:
  assumes ft: "fst (skip_check env w a) = Inr None"
  shows "case download_assets env (arg_split a) (arg_video_id a) (arg_assets a) w of
           (results, w') \<Rightarrow>
             (arg_assets a \<noteq> [] \<and> 0 \<le> arg_redownload_attempt a \<longrightarrow>
                (download_log (snd (process_single_scene env w a)) = download_log w
                   \<longleftrightarrow> arg_skip_download a \<and> arg_redownload_attempt a = 0))
             \<and> (\<not> arg_skip_download a \<or> 0 < arg_redownload_attempt a \<longrightarrow>
                  download_log (snd (process_single_scene env w a))
                    = download_log w
                      @ map (\<lambda>asset. (arg_split a, arg_video_id a, asset)) (arg_assets a)
                  \<and> (arg_assets a \<noteq> [] \<longrightarrow>
                        run_download env w (arg_video_id a) (arg_split a) (arg_assets a)
                          = (Inr (list_all (\<lambda>ok. ok) results), w'))
                  \<and> (\<not> list_all (\<lambda>ok. ok) results \<longrightarrow>
                        process_single_scene env w a =
                          (\<lparr>video_id = arg_video_id a, success = False,
                            error = Some (Literal (if 0 < arg_redownload_attempt a
                                                   then ''Redownload failed - scene not removed''
                                                   else ''Download failed'')),
                            phase = Some (if 0 < arg_redownload_attempt a
                                          then ''redownload_failed'' else ''download''),
                            reason = None\<rparr>, w'))
                  \<and> (list_all (\<lambda>ok. ok) results \<longrightarrow>
                        phase (fst (process_single_scene env w a)) \<noteq> Some ''download''
                        \<and> phase (fst (process_single_scene env w a)) \<noteq> Some ''redownload_failed''))"
proof -
  obtain results w' where da:
    "download_assets env (arg_split a) (arg_video_id a) (arg_assets a) w = (results, w')"
    by (cases "download_assets env (arg_split a) (arg_video_id a) (arg_assets a) w")
  have logw': "download_log w' = download_log w
      @ map (\<lambda>asset. (arg_split a, arg_video_id a, asset)) (arg_assets a)"
    using download_assets_effect [of env "arg_split a" "arg_video_id a" "arg_assets a" w]
    by (simp add: da)
  have s: "skip_check env w a = (Inr None, w)"
    using ft by (rule skip_check_falls_through)
  note ends = try_body_ends [of env w a]
  have skipped: "download_log (snd (process_single_scene env w a)) = download_log w"
    if "\<not> (\<not> arg_skip_download a \<or> 0 < arg_redownload_attempt a)"
  proof -
    from that have "download_phase env w a = (Inr None, w)" by (simp add: download_phase_def)
    then have "try_body env w a = processing_phase w a" by (simp add: try_body_def s)
    then show ?thesis by (simp add: process_single_scene_world processing_phase_log)
  qed
  have log: "download_log (snd (process_single_scene env w a)) = download_log w'"
    if runs: "\<not> arg_skip_download a \<or> 0 < arg_redownload_attempt a"
  proof -
    have dw: "snd (download_phase env w a) = w'"
      using runs by (auto simp: download_phase_world da)
    have "download_log (snd (try_body env w a)) = download_log w'"
      using ends ft dw processing_phase_log [of w' a] by auto
    then show ?thesis by (simp add: process_single_scene_world)
  qed
  have iff: "download_log (snd (process_single_scene env w a)) = download_log w
               \<longleftrightarrow> arg_skip_download a \<and> arg_redownload_attempt a = 0"
    if ne: "arg_assets a \<noteq> []" and nn: "0 \<le> arg_redownload_attempt a"
  proof (cases "\<not> arg_skip_download a \<or> 0 < arg_redownload_attempt a")
    case True
    have "download_log w' \<noteq> download_log w" using ne by (simp add: logw')
    with True nn show ?thesis by (auto simp: log)
  next
    case False
    with nn show ?thesis by (auto simp: skipped)
  qed
  have rd: "run_download env w (arg_video_id a) (arg_split a) (arg_assets a)
              = (Inr (list_all (\<lambda>ok. ok) results), w')"
    if "arg_assets a \<noteq> []"
    using that by (simp add: run_download_nonempty da)
  have failed: "process_single_scene env w a =
        (\<lparr>video_id = arg_video_id a, success = False,
          error = Some (Literal (if 0 < arg_redownload_attempt a
                                 then ''Redownload failed - scene not removed''
                                 else ''Download failed'')),
          phase = Some (if 0 < arg_redownload_attempt a then ''redownload_failed''
                        else ''download''),
          reason = None\<rparr>, w')"
    if runs: "\<not> arg_skip_download a \<or> 0 < arg_redownload_attempt a"
      and bad: "\<not> list_all (\<lambda>ok. ok) results"
  proof -
    have ne: "arg_assets a \<noteq> []"
      using bad failed_request_nonempty [of env "arg_split a" "arg_video_id a" "arg_assets a" w]
      by (simp add: da)
    have "download_phase env w a =
        (Inr (Some \<lparr>video_id = arg_video_id a, success = False,
          error = Some (Literal (if 0 < arg_redownload_attempt a
                                 then ''Redownload failed - scene not removed''
                                 else ''Download failed'')),
          phase = Some (if 0 < arg_redownload_attempt a then ''redownload_failed''
                        else ''download''),
          reason = None\<rparr>), w')"
      using download_phase_failed [OF runs ne, of env w] bad by (simp add: da)
    then show ?thesis
      by (simp add: process_single_scene_def try_body_def s)
  qed
  have succeeded: "phase (fst (process_single_scene env w a)) \<noteq> Some ''download''
        \<and> phase (fst (process_single_scene env w a)) \<noteq> Some ''redownload_failed''"
    if runs: "\<not> arg_skip_download a \<or> 0 < arg_redownload_attempt a"
      and all: "list_all (\<lambda>ok. ok) results"
  proof (cases "arg_assets a = []")
    case True
    then have "try_body env w a = (Inl (ValueError ''max_workers must be greater than 0''), w)"
      using download_phase_no_worker [OF runs, of env w] by (simp add: try_body_def s)
    then show ?thesis by (simp add: process_single_scene_def)
  next
    case ne: False
    consider (exc) "phase (fst (process_single_scene env w a)) = Some ''exception''"
      | (ret) r where "fst (try_body env w a) = Inr r" "fst (process_single_scene env w a) = r"
      using process_single_scene_phase [of env w a] by blast
    then show ?thesis
    proof cases
      case exc
      then show ?thesis by simp
    next
      case ret
      from ends ft consider
        (download) x where "fst (download_phase env w a) = x" "x \<noteq> Inr None"
          "try_body env w a = (map_sum id the x, snd (download_phase env w a))"
      | (processing) "try_body env w a = processing_phase (snd (download_phase env w a)) a"
        by auto
      then show ?thesis
      proof cases
        case download
        with ret(1) obtain ro where "x = Inr ro" "ro \<noteq> None" "the ro = r"
          by (cases x) auto
        then have "fst (download_phase env w a) = Inr (Some r)" using download(1) by auto
        then have "phase r = Some ''removed_missing_intrinsics''"
          using download_phase_succeeded [OF runs ne, of env w r] all by (simp add: da)
        with ret(2) show ?thesis by simp
      next
        case processing
        with ret(1) have "phase r = Some ''processing'' \<or> phase r = Some ''completed''"
          using processing_phase_result [of "snd (download_phase env w a)" a r] by simp
        with ret(2) show ?thesis by auto
      qed
    qed
  qed
  show ?thesis
    unfolding da prod.case
  proof (intro conjI impI)
    assume "arg_assets a \<noteq> [] \<and> 0 \<le> arg_redownload_attempt a"
    then show "download_log (snd (process_single_scene env w a)) = download_log w
                 \<longleftrightarrow> arg_skip_download a \<and> arg_redownload_attempt a = 0"
      using iff by simp
  next
    assume "\<not> arg_skip_download a \<or> 0 < arg_redownload_attempt a"
    then show "download_log (snd (process_single_scene env w a))
                 = download_log w
                   @ map (\<lambda>asset. (arg_split a, arg_video_id a, asset)) (arg_assets a)"
      using log logw' by simp
  qed (simp_all add: rd failed succeeded)
qed

theorem download_step_witness:
  "fst (skip_check failing_env empty_disk example_args) = Inr None
   \<and> arg_assets example_args \<noteq> []
   \<and> arg_redownload_attempt example_args = 0
   \<and> \<not> arg_skip_download example_args
   \<and> fst (process_single_scene failing_env empty_disk example_args)
      = \<lparr>video_id = ''41069021'', success = False, error = Some (Literal ''Download failed''),
         phase = Some ''download'', reason = None\<rparr>
   \<and> download_log (snd (process_single_scene failing_env empty_disk example_args))
      = [(''Training'', ''41069021'', ''highres_depth''),
         (''Training'', ''41069021'', ''ultrawide''),
         (''Training'', ''41069021'', ''ultrawide_intrinsics'')]
   \<and> fst (skip_check failing_env empty_disk
             (example_args\<lparr>arg_skip_download := True, arg_redownload_attempt := 1\<rparr>)) = Inr None
   \<and> fst (process_single_scene failing_env empty_disk
             (example_args\<lparr>arg_skip_download := True, arg_redownload_attempt := 1\<rparr>))
      = \<lparr>video_id = ''41069021'', success = False,
         error = Some (Literal ''Redownload failed - scene not removed''),
         phase = Some ''redownload_failed'', reason = None\<rparr>"
proof -
  define retry where
    "retry = example_args\<lparr>arg_skip_download := True, arg_redownload_attempt := 1\<rparr>"
  have h: "fst (skip_check failing_env empty_disk example_args) = Inr None"
    by (simp add: example_args_def default_assets_def empty_disk_def failing_env_def
        skip_check_def should_skip_scene_def has_highres_depth_available_def scene_key_def)
  have h': "fst (skip_check failing_env empty_disk retry) = Inr None"
    by (simp add: retry_def example_args_def skip_check_def)
  have d: "fst (download_assets failing_env ''Training'' ''41069021'' default_assets empty_disk)
             = [False, False, False]"
    by (simp add: default_assets_def failing_env_def empty_disk_def put_scene_def
        split: prod.splits)
  have a: "arg_split example_args = ''Training''" "arg_video_id example_args = ''41069021''"
    "arg_assets example_args = default_assets" "\<not> arg_skip_download example_args"
    "arg_redownload_attempt example_args = 0"
    by (simp_all add: example_args_def)
  have a': "arg_split retry = ''Training''" "arg_video_id retry = ''41069021''"
    "arg_assets retry = default_assets" "arg_skip_download retry"
    "arg_redownload_attempt retry = 1"
    by (simp_all add: retry_def example_args_def)
  have l: "download_log empty_disk = []" by (simp add: empty_disk_def)
  have first: "fst (process_single_scene failing_env empty_disk example_args)
      = \<lparr>video_id = ''41069021'', success = False, error = Some (Literal ''Download failed''),
         phase = Some ''download'', reason = None\<rparr>
    \<and> download_log (snd (process_single_scene failing_env empty_disk example_args))
      = [(''Training'', ''41069021'', ''highres_depth''),
         (''Training'', ''41069021'', ''ultrawide''),
         (''Training'', ''41069021'', ''ultrawide_intrinsics'')]"
    using download_step [OF h] d by (simp add: a l default_assets_def split: prod.splits)
  have second: "fst (process_single_scene failing_env empty_disk retry)
      = \<lparr>video_id = ''41069021'', success = False,
         error = Some (Literal ''Redownload failed - scene not removed''),
         phase = Some ''redownload_failed'', reason = None\<rparr>"
    using download_step [OF h'] d by (simp add: a' l default_assets_def split: prod.splits)
  show ?thesis
    using h h' first second by (simp add: a retry_def [symmetric] default_assets_def)
qed

text \<open>
  Claim C8. \<^verbatim>\<open>process_single_scene\<close> always returns a result for its scene: whatever
  the body raises is returned as a failure with the phase \<^verbatim>\<open>exception\<close> and the text
  of the exception, and whatever the body returns is returned as it is. No other scene
  directory is touched.
\<close>

theorem exceptions_become_results:
  "(\<forall>e w'. try_body env w a = (Inl e, w') \<longrightarrow>
       process_single_scene env w a =
         (\<lparr>video_id = arg_video_id a, success = False, error = Some (Str_of e),
           phase = Some ''exception'', reason = None\<rparr>, w'))
   \<and> (\<forall>r w'. try_body env w a = (Inr r, w') \<longrightarrow> process_single_scene env w a = (r, w'))
   \<and> video_id (fst (process_single_scene env w a)) = arg_video_id a
   \<and> (\<forall>k. k \<noteq> scene_key a \<longrightarrow> scenes (snd (process_single_scene env w a)) k = scenes w k)"
  by (simp add: process_single_scene_raised process_single_scene_returned
      process_single_scene_video_id process_single_scene_frame)

theorem exceptions_become_results_witness:
  "fst (try_body idle_env empty_disk (example_args\<lparr>arg_skip_download := True\<rparr>))
     = Inl FileNotFoundError
   \<and> fst (process_single_scene idle_env empty_disk (example_args\<lparr>arg_skip_download := True\<rparr>))
     = \<lparr>video_id = ''41069021'', success = False, error = Some (Str_of FileNotFoundError),
        phase = Some ''exception'', reason = None\<rparr>
   \<and> (''Validation'', ''47333462'') \<noteq> scene_key (example_args\<lparr>arg_skip_download := True\<rparr>)
   \<and> scenes (snd (process_single_scene idle_env empty_disk
                     (example_args\<lparr>arg_skip_download := True\<rparr>))) (''Validation'', ''47333462'')
      = None"
proof -
  have b: "try_body idle_env empty_disk (example_args\<lparr>arg_skip_download := True\<rparr>)
      = (Inl FileNotFoundError, put_scene empty_disk (''Training'', ''41069021'') None)"
    by (simp add: example_args_def empty_disk_def idle_env_def try_body_def skip_check_def
        download_phase_def processing_phase_def run_clean_subsample_def
        clean_scene_directories_def scene_key_def should_skip_scene_def
        has_highres_depth_available_def default_assets_def)
  have k: "(''Validation'', ''47333462'') \<noteq> scene_key (example_args\<lparr>arg_skip_download := True\<rparr>)"
    by (simp add: scene_key_def example_args_def)
  from exceptions_become_results
         [of idle_env empty_disk "example_args\<lparr>arg_skip_download := True\<rparr>"]
  show ?thesis
    using b k by (simp add: example_args_def empty_disk_def put_scene_def)
qed

section \<open>Properties of the waves\<close>

lemma update_failed_downloads:
  "failed_downloads (update t r sp) =
     failed_downloads t @
       (if \<not> success r \<and> get_phase r = ''download'' then [video_id r] else [])"
  by (simp add: update_def Let_def removal_phases_def split: option.splits)

lemma update_failed_processing:
  "failed_processing (update t r sp) =
     failed_processing t @
       (if \<not> success r \<and> get_phase r \<in> set removal_phases
        then [video_id r @ '' ('' @ get_phase r @ '')'']
        else if \<not> success r \<and> get_phase r \<noteq> ''download'' then [video_id r] else [])"
  by (simp add: update_def Let_def split: option.splits)

lemma update_successful_scenes:
  "successful_scenes (update t r (Some s)) =
     successful_scenes t @
       (if success r \<and> get_phase r \<notin> set skip_phases \<and> s \<noteq> [] then [(video_id r, s)] else [])"
  by (simp add: update_def Let_def)

lemma track_fold:
  "update_all t (map (\<lambda>(a, r). (r, Some (arg_split a))) ((a, r) # rs))
     = update_all (update t r (Some (arg_split a))) (map (\<lambda>(a, r). (r, Some (arg_split a))) rs)"
  by (simp add: update_all_def)

lemma tracked_failed_downloads:
  "failed_downloads (update_all t (map (\<lambda>(a, r). (r, Some (arg_split a))) rs)) =
     failed_downloads t @
       map (\<lambda>(a, r). video_id r)
         (filter (\<lambda>(a, r). \<not> success r \<and> get_phase r = ''download'') rs)"
proof (induction rs arbitrary: t)
  case Nil
  then show ?case by (simp add: update_all_def)
next
  case (Cons x rs)
  obtain a r where x: "x = (a, r)" by (cases x)
  show ?case
    unfolding x track_fold Cons.IH by (simp add: update_failed_downloads)
qed

lemma tracked_failed_processing:
  "failed_processing (update_all t (map (\<lambda>(a, r). (r, Some (arg_split a))) rs)) =
     failed_processing t @
       map (\<lambda>(a, r). if get_phase r \<in> set removal_phases
                      then video_id r @ '' ('' @ get_phase r @ '')'' else video_id r)
         (filter (\<lambda>(a, r). \<not> success r
                    \<and> (get_phase r \<in> set removal_phases \<or> get_phase r \<noteq> ''download'')) rs)"
proof (induction rs arbitrary: t)
  case Nil
  then show ?case by (simp add: update_all_def)
next
  case (Cons x rs)
  obtain a r where x: "x = (a, r)" by (cases x)
  have "''download'' \<notin> set removal_phases" by (simp add: removal_phases_def)
  then show ?case
    unfolding x track_fold Cons.IH by (auto simp: update_failed_processing)
qed

lemma tracked_successful_scenes:
  "successful_scenes (update_all t (map (\<lambda>(a, r). (r, Some (arg_split a))) rs)) =
     successful_scenes t @
       map (\<lambda>(a, r). (video_id r, arg_split a))
         (filter (\<lambda>(a, r). success r \<and> get_phase r \<notin> set skip_phases \<and> arg_split a \<noteq> []) rs)"
proof (induction rs arbitrary: t)
  case Nil
  then show ?case by (simp add: update_all_def)
next
  case (Cons x rs)
  obtain a r where x: "x = (a, r)" by (cases x)
  show ?case
    unfolding x track_fold Cons.IH by (simp add: update_successful_scenes)
qed

lemma track_failed_downloads:
  "failed_downloads (track n rs) =
     map (\<lambda>(a, r). video_id r) (filter (\<lambda>(a, r). \<not> success r \<and> get_phase r = ''download'') rs)"
  by (simp add: track_def tracked_failed_downloads init_tracker_def)

lemma track_successful_scenes:
  "successful_scenes (track n rs) =
     map (\<lambda>(a, r). (video_id r, arg_split a))
       (filter (\<lambda>(a, r). success r \<and> get_phase r \<notin> set skip_phases \<and> arg_split a \<noteq> []) rs)"
  by (simp add: track_def tracked_successful_scenes init_tracker_def)

lemma first_word_plain: "CHR '' '' \<notin> set vid \<Longrightarrow> first_word vid = vid"
  by (auto simp: first_word_def)

lemma first_word_tagged: "CHR '' '' \<notin> set vid \<Longrightarrow> first_word (vid @ CHR '' '' # rest) = vid"
  by (auto simp: first_word_def takeWhile_append)

lemma track_failure_is_permanent:
  assumes "(a, r) \<in> set rs" and "\<not> success r" and "CHR '' '' \<notin> set (video_id r)"
  shows "video_id r \<in> set (permanently_failed (track n rs))"
proof (cases "get_phase r = ''download'' \<and> get_phase r \<notin> set removal_phases")
  case True
  with assms(1,2) have "video_id r \<in> set (failed_downloads (track n rs))"
    by (force simp: track_failed_downloads)
  then show ?thesis by (simp add: permanently_failed_def)
next
  case False
  define tag where "tag = (\<lambda>(a::scene_args, r). if get_phase r \<in> set removal_phases
                      then video_id r @ '' ('' @ get_phase r @ '')'' else video_id r)"
  have "tag (a, r) \<in> set (failed_processing (track n rs))"
    using assms(1,2) False
    unfolding track_def tracked_failed_processing tag_def [symmetric]
    by (force simp: init_tracker_def)
  moreover have "first_word (tag (a, r)) = video_id r"
    using assms(3) by (simp add: tag_def first_word_plain first_word_tagged)
  ultimately have "video_id r \<in> first_word ` set (failed_processing (track n rs))"
    by force
  then show ?thesis by (simp add: permanently_failed_def)
qed

lemma run_wave_step:
  "\<not> shutdown_requested env w \<Longrightarrow>
   run_wave env (a # rest) w =
     ((a, fst (process_single_scene env w a))
        # fst (run_wave env rest ((snd (process_single_scene env w a))
                                   \<lparr>served := served (snd (process_single_scene env w a)) + 1\<rparr>)),
      snd (run_wave env rest ((snd (process_single_scene env w a))
                                   \<lparr>served := served (snd (process_single_scene env w a)) + 1\<rparr>)))"
  by (simp split: prod.splits)

lemma run_wave_stop: "shutdown_requested env w \<Longrightarrow> run_wave env (a # rest) w = ([], w)"
  by simp

lemma run_wave_prefix:
  "map fst (fst (run_wave env tasks w)) = take (length (fst (run_wave env tasks w))) tasks"
proof (induction tasks arbitrary: w)
  case Nil
  then show ?case by simp
next
  case (Cons a rest)
  show ?case
  proof (cases "shutdown_requested env w")
    case True
    then show ?thesis by (simp only: run_wave_stop) simp
  next
    case False
    show ?thesis
      unfolding run_wave_step [OF False] using Cons.IH by simp
  qed
qed

lemma run_wave_video_id:
  "(a, r) \<in> set (fst (run_wave env tasks w)) \<Longrightarrow> video_id r = arg_video_id a"
proof (induction tasks arbitrary: w)
  case Nil
  then show ?case by simp
next
  case (Cons b rest)
  show ?case
  proof (cases "shutdown_requested env w")
    case True
    with Cons.prems show ?thesis by (simp only: run_wave_stop) simp
  next
    case False
    from Cons.prems consider "a = b \<and> r = fst (process_single_scene env w b)"
      | "(a, r) \<in> set (fst (run_wave env rest ((snd (process_single_scene env w b))
                                   \<lparr>served := served (snd (process_single_scene env w b)) + 1\<rparr>)))"
      unfolding run_wave_step [OF False] by auto
    then show ?thesis
    proof cases
      case 1
      then show ?thesis by (simp add: process_single_scene_video_id)
    next
      case 2
      then show ?thesis by (rule Cons.IH)
    qed
  qed
qed

lemma run_wave_frame:
  "\<forall>a \<in> set tasks. scene_key a \<noteq> k \<Longrightarrow> scenes (snd (run_wave env tasks w)) k = scenes w k"
proof (induction tasks arbitrary: w)
  case Nil
  then show ?case by simp
next
  case (Cons b rest)
  show ?case
  proof (cases "shutdown_requested env w")
    case True
    then show ?thesis by (simp only: run_wave_stop) simp
  next
    case False
    define w1 where "w1 = (snd (process_single_scene env w b))
                            \<lparr>served := served (snd (process_single_scene env w b)) + 1\<rparr>"
    have "scenes w1 k = scenes w k"
      using Cons.prems process_single_scene_frame [of k b env w] by (auto simp: w1_def)
    moreover have "scenes (snd (run_wave env rest w1)) k = scenes w1 k"
      using Cons.prems by (intro Cons.IH) simp
    ultimately show ?thesis
      unfolding run_wave_step [OF False] w1_def [symmetric] by simp
  qed
qed

lemma removed_stays_absent:
  "scenes w k' = None \<Longrightarrow> scenes (snd (remove_scene_directory env w k)) k' = None"
  by (simp add: remove_scene_directory_def put_scene_def)

lemma removed_is_absent:
  "\<not> rmtree_fails env k \<Longrightarrow> scenes (snd (remove_scene_directory env w k)) k = None"
  by (simp add: remove_scene_directory_def put_scene_def)

lemma remove_failed_stays_absent:
  "scenes w k = None \<Longrightarrow> scenes (remove_failed env fs vids w) k = None"
proof (induction vids arbitrary: w)
  case Nil
  then show ?case by simp
next
  case (Cons v vids)
  show ?case
  proof (cases "find_scene_arg fs v")
    case None
    with Cons show ?thesis by simp
  next
    case (Some a)
    have "scenes (snd (remove_scene_directory env w (arg_split a, v))) k = None"
      using Cons.prems by (rule removed_stays_absent)
    then show ?thesis using Some by (simp add: Cons.IH)
  qed
qed

lemma remove_failed_removes:
  assumes "vid \<in> set vids" and "find_scene_arg fs vid = Some a"
    and "\<not> rmtree_fails env (arg_split a, vid)"
  shows "scenes (remove_failed env fs vids w) (arg_split a, vid) = None"
  using assms(1)
proof (induction vids arbitrary: w)
  case Nil
  then show ?case by simp
next
  case (Cons v vids)
  show ?case
  proof (cases "v = vid")
    case True
    have "scenes (snd (remove_scene_directory env w (arg_split a, vid))) (arg_split a, vid) = None"
      using assms(3) by (rule removed_is_absent)
    then show ?thesis
      using True assms(2) by (simp add: remove_failed_stays_absent)
  next
    case False
    with Cons.prems have "vid \<in> set vids" by simp
    then have "scenes (remove_failed env fs vids w') (arg_split a, vid) = None" for w'
      by (rule Cons.IH)
    then show ?thesis by (cases "find_scene_arg fs v") simp_all
  qed
qed

lemma remove_all_Cons:
  "remove_all env ((vid, split) # todo) w
     = remove_all env todo (snd (remove_scene_directory env w (split, vid)))"
  by (simp add: remove_all_def)

lemma remove_all_stays_absent:
  "scenes w k = None \<Longrightarrow> scenes (remove_all env todo w) k = None"
proof (induction todo arbitrary: w)
  case Nil
  then show ?case by (simp add: remove_all_def)
next
  case (Cons x todo)
  obtain vid split where x: "x = (vid, split)" by (cases x)
  have "scenes (snd (remove_scene_directory env w (split, vid))) k = None"
    using Cons.prems by (rule removed_stays_absent)
  then show ?case unfolding x remove_all_Cons by (rule Cons.IH)
qed

lemma remove_all_removes:
  assumes "(vid, split) \<in> set todo" and "\<not> rmtree_fails env (split, vid)"
  shows "scenes (remove_all env todo w) (split, vid) = None"
  using assms(1)
proof (induction todo arbitrary: w)
  case Nil
  then show ?case by simp
next
  case (Cons x todo)
  obtain v s where x: "x = (v, s)" by (cases x)
  show ?case
  proof (cases "x = (vid, split)")
    case True
    have "scenes (snd (remove_scene_directory env w (split, vid))) (split, vid) = None"
      using assms(2) by (rule removed_is_absent)
    then show ?thesis
      using True x unfolding x remove_all_Cons by (simp add: remove_all_stays_absent)
  next
    case False
    with Cons.prems have "(vid, split) \<in> set todo" by simp
    then show ?thesis unfolding x remove_all_Cons by (rule Cons.IH)
  qed
qed

lemma main_args_video_ids: "map arg_video_id (main_args args sl) = map fst sl"
  by (induction sl) (auto simp: main_args_def)

lemma empty_args_video_ids: "map arg_video_id (empty_args args todo) = map fst todo"
  by (induction todo) (auto simp: empty_args_def)

lemma empty_args_member:
  "a \<in> set (empty_args args todo) \<Longrightarrow> (arg_video_id a, arg_split a) \<in> set todo"
  by (auto simp: empty_args_def)

lemma repair_args_member:
  "a \<in> set (repair_args args (needing_redownload rs)) \<Longrightarrow>
   \<exists>b r. (b, r) \<in> set rs \<and> phase r = Some ''removed_missing_intrinsics''
         \<and> scene_key b = scene_key a"
  by (fastforce simp: repair_args_def needing_redownload_def scene_key_def)

lemma find_scene_arg_Some:
  "find_scene_arg tasks v = Some a \<Longrightarrow> a \<in> set tasks \<and> arg_video_id a = v"
  by (auto simp: find_scene_arg_def find_Some_iff)

lemma find_scene_arg_exists:
  "a \<in> set tasks \<Longrightarrow> \<exists>a'. find_scene_arg tasks (arg_video_id a) = Some a'"
  by (cases "find_scene_arg tasks (arg_video_id a)") (auto simp: find_scene_arg_def find_None_iff)

lemma failed_scenes_of_member:
  "a \<in> set (failed_scenes_of tasks progress) \<Longrightarrow>
   a \<in> set tasks \<and> arg_video_id a \<in> set (failed_downloads progress)"
  using find_scene_arg_Some [of tasks _ a]
  by (fastforce simp: failed_scenes_of_def split: option.splits)

lemma run_wave_member:
  assumes "(a, r) \<in> set (fst (run_wave env tasks w))"
  shows "a \<in> set tasks"
proof -
  have "a \<in> set (map fst (fst (run_wave env tasks w)))" using assms by force
  then have "a \<in> set (take (length (fst (run_wave env tasks w))) tasks)"
    by (simp only: run_wave_prefix [symmetric])
  then show ?thesis by (rule in_set_takeD)
qed

lemma failed_scenes_of_first:
  assumes "b \<in> set (failed_scenes_of tasks progress)"
  shows "find_scene_arg tasks (arg_video_id b) = Some b"
proof -
  from assms obtain v where "find_scene_arg tasks v = Some b"
    by (auto simp: failed_scenes_of_def split: option.splits)
  moreover from this have "arg_video_id b = v" using find_scene_arg_Some by blast
  ultimately show ?thesis by simp
qed

lemma with_empty_dirs_present:
  "with_empty_dirs w assets (vid, split) \<Longrightarrow> scenes w (split, vid) \<noteq> None"
  by (cases "scenes w (split, vid)")
     (auto simp: with_empty_dirs_def check_scene_subfolders_empty_def lookup_def entries_def
        filter_empty_conv)

lemma main_report:
  "main_results (main env args sl w0) = fst (run_wave env (main_args args sl) w0)
   \<and> after_main (main env args sl w0) = snd (run_wave env (main_args args sl) w0)
   \<and> retry_results (main env args sl w0)
       = fst (retry_wave env
                (failed_scenes_of (main_args args sl)
                   (track (length sl) (fst (run_wave env (main_args args sl) w0))))
                (snd (run_wave env (main_args args sl) w0)))
   \<and> after_retry (main env args sl w0)
       = snd (retry_wave env
                (failed_scenes_of (main_args args sl)
                   (track (length sl) (fst (run_wave env (main_args args sl) w0))))
                (snd (run_wave env (main_args args sl) w0)))
   \<and> repair_tasks (main env args sl w0)
       = needing_redownload (fst (run_wave env (main_args args sl) w0))
   \<and> repair_results (main env args sl w0)
       = fst (repair_wave env args (repair_tasks (main env args sl w0))
                (after_retry (main env args sl w0)))
   \<and> after_repair (main env args sl w0)
       = snd (repair_wave env args (repair_tasks (main env args sl w0))
                (after_retry (main env args sl w0)))
   \<and> empty_results (main env args sl w0)
       = fst (empty_wave env args
                (track (length sl) (fst (run_wave env (main_args args sl) w0)))
                (after_repair (main env args sl w0)))
   \<and> final (main env args sl w0)
       = snd (empty_wave env args
                (track (length sl) (fst (run_wave env (main_args args sl) w0)))
                (after_repair (main env args sl w0)))"
  by (simp add: main_def Let_def split: prod.splits)

lemma retry_wave_ran:
  assumes "fst (retry_wave env fs w) \<noteq> []"
  shows "retry_wave env fs w =
     (fst (run_wave env
             (map (\<lambda>a. a\<lparr>arg_skip_download := False, arg_force_reprocess := True,
                           arg_redownload_attempt := 1\<rparr>) fs) w),
      remove_failed env fs
        (permanently_failed (track (length fs)
           (fst (run_wave env
             (map (\<lambda>a. a\<lparr>arg_skip_download := False, arg_force_reprocess := True,
                           arg_redownload_attempt := 1\<rparr>) fs) w))))
        (snd (run_wave env
             (map (\<lambda>a. a\<lparr>arg_skip_download := False, arg_force_reprocess := True,
                           arg_redownload_attempt := 1\<rparr>) fs) w)))"
  using assms by (auto simp: retry_wave_def Let_def split: prod.splits if_splits)

lemma empty_wave_ran:
  assumes "fst (empty_wave env args progress w) \<noteq> []"
  shows "\<exists>todo. todo = filter (with_empty_dirs w (cli_assets args)) (successful_scenes progress)
     \<and> fst (empty_wave env args progress w) = fst (run_wave env (empty_args args todo) w)
     \<and> snd (empty_wave env args progress w)
         = remove_all env
             (filter (\<lambda>sc. sc \<notin> set (successful_scenes
                         (track (length todo) (fst (run_wave env (empty_args args todo) w))))
                       \<or> with_empty_dirs (snd (run_wave env (empty_args args todo) w))
                            (cli_assets args) sc) todo)
             (snd (run_wave env (empty_args args todo) w))"
proof -
  define todo where
    "todo = filter (with_empty_dirs w (cli_assets args)) (successful_scenes progress)"
  have "\<not> shutdown_requested env w \<and> \<not> cli_validate_only args \<and> todo \<noteq> []"
    using assms by (auto simp: empty_wave_def Let_def todo_def [symmetric] split: if_splits)
  then have "empty_wave env args progress w =
     (fst (run_wave env (empty_args args todo) w),
      remove_all env
             (filter (\<lambda>sc. sc \<notin> set (successful_scenes
                         (track (length todo) (fst (run_wave env (empty_args args todo) w))))
                       \<or> with_empty_dirs (snd (run_wave env (empty_args args todo) w))
                            (cli_assets args) sc) todo)
             (snd (run_wave env (empty_args args todo) w)))"
    by (simp add: empty_wave_def Let_def todo_def [symmetric] split: prod.splits)
  then show ?thesis by (intro exI [of _ todo]) (simp add: todo_def)
qed

lemma empty_wave_tasks:
  "\<exists>todo still. (\<forall>sc \<in> set todo. with_empty_dirs w (cli_assets args) sc)
     \<and> snd (empty_wave env args progress w)
         = remove_all env still (snd (run_wave env (empty_args args todo) w))"
proof -
  define todo where
    "todo = filter (with_empty_dirs w (cli_assets args)) (successful_scenes progress)"
  define still where
    "still = filter (\<lambda>sc. sc \<notin> set (successful_scenes
                    (track (length todo) (fst (run_wave env (empty_args args todo) w))))
                  \<or> with_empty_dirs (snd (run_wave env (empty_args args todo) w))
                       (cli_assets args) sc) todo"
  show ?thesis
  proof (cases "\<not> shutdown_requested env w \<and> \<not> cli_validate_only args \<and> todo \<noteq> []")
    case True
    then have "snd (empty_wave env args progress w)
         = remove_all env still (snd (run_wave env (empty_args args todo) w))"
      by (simp add: empty_wave_def Let_def todo_def [symmetric] still_def split: prod.splits)
    moreover have "\<forall>sc \<in> set todo. with_empty_dirs w (cli_assets args) sc"
      by (simp add: todo_def)
    ultimately show ?thesis by blast
  next
    case False
    then have "snd (empty_wave env args progress w) = w"
      by (auto simp: empty_wave_def Let_def todo_def [symmetric])
    then have "snd (empty_wave env args progress w)
         = remove_all env [] (snd (run_wave env (empty_args args []) w))"
      by (simp add: remove_all_def empty_args_def)
    then show ?thesis by (intro exI [of _ "[]"]) auto
  qed
qed

lemma successful_scene_result:
  assumes "(v, s) \<in> set (successful_scenes (track n rs))"
    and "rs = fst (run_wave env tasks w)"
  shows "\<exists>a r. (a, r) \<in> set rs \<and> success r \<and> arg_video_id a = v \<and> arg_split a = s"
proof -
  from assms(1) obtain a r where ar: "(a, r) \<in> set rs" "success r" "video_id r = v" "arg_split a = s"
    by (auto simp: track_successful_scenes)
  from ar(1) have "video_id r = arg_video_id a"
    unfolding assms(2) by (rule run_wave_video_id)
  with ar show ?thesis by auto
qed

lemma skip_check_phase:
  assumes "fst (skip_check env w a) = Inr (Some r)"
  shows "phase r \<in> {Some ''skipped'', Some ''skipped_no_highres'', Some ''removed_no_highres'',
                     Some ''removal_failed''}"
proof (cases "\<not> arg_force_reprocess a \<and> arg_redownload_attempt a = 0")
  case False
  with assms show ?thesis by (auto simp: skip_check_def)
next
  case True
  show ?thesis
  proof (cases "should_skip_scene (catalog w) (scenes w (scene_key a)) (arg_video_id a)
                  (arg_assets a) (arg_subsample_n a)")
    case (Inl e)
    with True assms show ?thesis by (simp add: skip_check_def)
  next
    case (Inr p)
    obtain action rsn where p: "p = (action, rsn)" by (cases p)
    show ?thesis
      using True Inr p assms
      by (cases action)
         (auto simp: skip_check_def make_result_def split: prod.splits if_splits)
  qed
qed

lemma download_phase_first_attempt:
  assumes "fst (download_phase env w a) = Inr (Some r)" and "arg_redownload_attempt a = 0"
  shows "phase r = Some ''download''"
proof -
  obtain x w' where rd: "run_download env w (arg_video_id a) (arg_split a) (arg_assets a) = (x, w')"
    by (cases "run_download env w (arg_video_id a) (arg_split a) (arg_assets a)")
  show ?thesis
    using assms rd
    by (cases x) (auto simp: download_phase_def make_result_def split: if_splits)
qed

lemma first_attempt_phase:
  assumes "arg_redownload_attempt a = 0"
  shows "phase (fst (process_single_scene env w a)) \<noteq> Some ''removed_missing_intrinsics''"
proof -
  consider (exc) "phase (fst (process_single_scene env w a)) = Some ''exception''"
    | (ret) r where "fst (try_body env w a) = Inr r" "fst (process_single_scene env w a) = r"
    using process_single_scene_phase [of env w a] by blast
  then show ?thesis
  proof cases
    case exc
    then show ?thesis by simp
  next
    case ret
    consider
      (skip) x where "fst (skip_check env w a) = x" "x \<noteq> Inr None"
        "try_body env w a = (map_sum id the x, snd (skip_check env w a))"
    | (download) x where "fst (download_phase env w a) = x" "x \<noteq> Inr None"
        "try_body env w a = (map_sum id the x, snd (download_phase env w a))"
    | (processing) "try_body env w a = processing_phase (snd (download_phase env w a)) a"
      using try_body_ends [of env w a] by blast
    then show ?thesis
    proof cases
      case skip
      with ret(1) obtain ro where "x = Inr ro" "ro \<noteq> None" "the ro = r"
        by (cases x) auto
      then have "fst (skip_check env w a) = Inr (Some r)" using skip(1) by auto
      from skip_check_phase [OF this] ret(2) show ?thesis by auto
    next
      case download
      with ret(1) obtain ro where "x = Inr ro" "ro \<noteq> None" "the ro = r"
        by (cases x) auto
      then have "fst (download_phase env w a) = Inr (Some r)" using download(1) by auto
      from download_phase_first_attempt [OF this assms] ret(2) show ?thesis by simp
    next
      case processing
      with ret(1) have "phase r = Some ''processing'' \<or> phase r = Some ''completed''"
        using processing_phase_result [of "snd (download_phase env w a)" a r] by simp
      with ret(2) show ?thesis by auto
    qed
  qed
qed

lemma run_wave_first_attempt:
  "\<forall>a \<in> set tasks. arg_redownload_attempt a = 0 \<Longrightarrow>
   (a, r) \<in> set (fst (run_wave env tasks w)) \<Longrightarrow> phase r \<noteq> Some ''removed_missing_intrinsics''"
proof (induction tasks arbitrary: w)
  case Nil
  then show ?case by simp
next
  case (Cons b rest)
  show ?case
  proof (cases "shutdown_requested env w")
    case True
    with Cons.prems show ?thesis by (simp only: run_wave_stop) simp
  next
    case False
    from Cons.prems(2) consider "a = b \<and> r = fst (process_single_scene env w b)"
      | "(a, r) \<in> set (fst (run_wave env rest ((snd (process_single_scene env w b))
                                   \<lparr>served := served (snd (process_single_scene env w b)) + 1\<rparr>)))"
      unfolding run_wave_step [OF False] by auto
    then show ?thesis
    proof cases
      case 1
      with Cons.prems(1) show ?thesis by (simp add: first_attempt_phase)
    next
      case 2
      with Cons.prems(1) show ?thesis by (intro Cons.IH) simp_all
    qed
  qed
qed

lemma repair_wave_never_runs:
  "repair_tasks (main env args sl w0) = [] \<and> repair_results (main env args sl w0) = []"
proof -
  have "\<forall>a \<in> set (main_args args sl). arg_redownload_attempt a = 0"
    by (auto simp: main_args_def)
  then have "filter (\<lambda>(a, r). phase r = Some ''removed_missing_intrinsics'')
               (fst (run_wave env (main_args args sl) w0)) = []"
    using run_wave_first_attempt [of "main_args args sl" _ _ env w0]
    by (auto simp: filter_empty_conv)
  then have "repair_tasks (main env args sl w0) = []"
    using main_report [of env args sl w0] by (simp add: needing_redownload_def)
  moreover from this have "repair_results (main env args sl w0) = []"
    using main_report [of env args sl w0] by (simp add: repair_wave_def)
  ultimately show ?thesis by simp
qed

lemma repair_wave_leaves_world:
  "after_repair (main env args sl w0) = after_retry (main env args sl w0)"
  using repair_wave_never_runs [of env args sl w0] main_report [of env args sl w0]
  by (simp add: repair_wave_def)

lemma retry_failure_removed:
  assumes sp: "CHR '' '' \<notin> set vid" and rm: "\<not> rmtree_fails env (split, vid)"
    and r: "(a2, r2) \<in> set (retry_results (main env args sl w0))" "scene_key a2 = (split, vid)"
      "\<not> success r2"
  shows "scenes (final (main env args sl w0)) (split, vid) = None"
proof -
  define tasks where "tasks = main_args args sl"
  define rs1 where "rs1 = fst (run_wave env tasks w0)"
  define w1 where "w1 = snd (run_wave env tasks w0)"
  define progress where "progress = track (length sl) rs1"
  define fs where "fs = failed_scenes_of tasks progress"
  define retry_args where "retry_args = map (\<lambda>a. a\<lparr>arg_skip_download := False,
      arg_force_reprocess := True, arg_redownload_attempt := 1\<rparr>) fs"
  define rs2 where "rs2 = fst (run_wave env retry_args w1)"
  define w2 where "w2 = snd (retry_wave env fs w1)"
  note rep = main_report [of env args sl w0, folded tasks_def, folded rs1_def w1_def,
      folded progress_def, folded fs_def]
  text \<open>the retry wave ran, and removed the scene\<close>
  have r2: "(a2, r2) \<in> set (fst (retry_wave env fs w1))" using r(1) rep by simp
  then have ran: "fst (retry_wave env fs w1) \<noteq> []" by auto
  have rw: "fst (retry_wave env fs w1) = rs2"
    "w2 = remove_failed env fs (permanently_failed (track (length fs) rs2))
            (snd (run_wave env retry_args w1))"
    using retry_wave_ran [OF ran] by (simp_all add: rs2_def retry_args_def w2_def)
  have r2': "(a2, r2) \<in> set rs2" using r2 rw(1) by simp
  then have "a2 \<in> set retry_args" unfolding rs2_def by (rule run_wave_member)
  then obtain a where a: "a \<in> set fs" "arg_video_id a = vid" "arg_split a = split"
    using r(2) by (auto simp: retry_args_def scene_key_def)
  obtain a' where a': "find_scene_arg fs vid = Some a'"
    using find_scene_arg_exists [OF a(1)] a(2) by auto
  then have "a' \<in> set fs" "arg_video_id a' = vid"
    using find_scene_arg_Some [of fs vid a'] by simp_all
  then have "find_scene_arg tasks vid = Some a'"
    using failed_scenes_of_first [of a' tasks progress] by (simp add: fs_def)
  moreover have "find_scene_arg tasks vid = Some a"
    using failed_scenes_of_first [of a tasks progress] a(1,2) by (simp add: fs_def)
  ultimately have "a' = a" by simp
  then have split': "arg_split a' = split" using a(3) by simp
  have "video_id r2 = vid"
    using run_wave_video_id [of a2 r2 env retry_args w1] r2' r(2)
    by (simp add: rs2_def scene_key_def)
  then have "vid \<in> set (permanently_failed (track (length fs) rs2))"
    using track_failure_is_permanent [OF r2' r(3), of "length fs"] sp by simp
  then have gone2: "scenes w2 (split, vid) = None"
    unfolding rw(2) using remove_failed_removes [OF _ a', of _ env] rm split' by simp
  text \<open>the repair wave has no task, and the last wave takes up no absent scene\<close>
  have w3: "after_repair (main env args sl w0) = w2"
    using repair_wave_leaves_world [of env args sl w0] rep by (simp add: w2_def)
  obtain todo still where todo: "\<forall>sc \<in> set todo. with_empty_dirs w2 (cli_assets args) sc"
    and w4: "snd (empty_wave env args progress w2)
               = remove_all env still (snd (run_wave env (empty_args args todo) w2))"
    using empty_wave_tasks [of w2 args env progress] by blast
  have "scene_key t \<noteq> (split, vid)" if "t \<in> set (empty_args args todo)" for t
  proof
    assume k: "scene_key t = (split, vid)"
    from empty_args_member [OF that] todo
    have "with_empty_dirs w2 (cli_assets args) (arg_video_id t, arg_split t)" by blast
    then have "scenes w2 (arg_split t, arg_video_id t) \<noteq> None"
      by (rule with_empty_dirs_present)
    with k gone2 show False by (simp add: scene_key_def)
  qed
  then have "scenes (snd (run_wave env (empty_args args todo) w2)) (split, vid)
               = scenes w2 (split, vid)"
    by (intro run_wave_frame) blast
  then have "scenes (snd (empty_wave env args progress w2)) (split, vid) = None"
    unfolding w4 using gone2 by (intro remove_all_stays_absent) simp
  moreover have "final (main env args sl w0) = snd (empty_wave env args progress w2)"
    using rep w3 by simp
  ultimately show ?thesis by simp
qed

lemma empty_failure_removed:
  assumes rm: "\<not> rmtree_fails env (split, vid)"
    and e: "(a4, r4) \<in> set (empty_results (main env args sl w0))" "scene_key a4 = (split, vid)"
    and f: "\<forall>(a, r) \<in> set (empty_results (main env args sl w0)).
              scene_key a = (split, vid) \<longrightarrow> \<not> success r"
  shows "scenes (final (main env args sl w0)) (split, vid) = None"
proof -
  define tasks where "tasks = main_args args sl"
  define progress where "progress = track (length sl) (fst (run_wave env tasks w0))"
  define w3 where "w3 = after_repair (main env args sl w0)"
  note rep = main_report [of env args sl w0, folded tasks_def, folded progress_def,
      folded w3_def]
  have e4: "(a4, r4) \<in> set (fst (empty_wave env args progress w3))" using e(1) rep by simp
  then have "fst (empty_wave env args progress w3) \<noteq> []" by auto
  from empty_wave_ran [OF this] obtain todo where
    todo: "todo = filter (with_empty_dirs w3 (cli_assets args)) (successful_scenes progress)"
    and rs4: "fst (empty_wave env args progress w3) = fst (run_wave env (empty_args args todo) w3)"
    and w4: "snd (empty_wave env args progress w3)
         = remove_all env
             (filter (\<lambda>sc. sc \<notin> set (successful_scenes
                         (track (length todo) (fst (run_wave env (empty_args args todo) w3))))
                       \<or> with_empty_dirs (snd (run_wave env (empty_args args todo) w3))
                            (cli_assets args) sc) todo)
             (snd (run_wave env (empty_args args todo) w3))"
    by blast
  have rs4': "empty_results (main env args sl w0) = fst (run_wave env (empty_args args todo) w3)"
    using rep rs4 by simp
  have "a4 \<in> set (empty_args args todo)"
    using e(1) unfolding rs4' by (rule run_wave_member)
  then have mem: "(vid, split) \<in> set todo"
    using empty_args_member [of a4 args todo] e(2) by (simp add: scene_key_def)
  have "(vid, split) \<notin> set (successful_scenes
           (track (length todo) (fst (run_wave env (empty_args args todo) w3))))"
  proof
    assume "(vid, split) \<in> set (successful_scenes
           (track (length todo) (fst (run_wave env (empty_args args todo) w3))))"
    then obtain c rc where c: "(c, rc) \<in> set (fst (run_wave env (empty_args args todo) w3))"
        "success rc" "arg_video_id c = vid" "arg_split c = split"
      using successful_scene_result [OF _ refl] by blast
    then have "scene_key c = (split, vid)" by (simp add: scene_key_def)
    with f c(1) have "\<not> success rc" unfolding rs4' by blast
    with c(2) show False by simp
  qed
  with mem have "(vid, split) \<in> set (filter (\<lambda>sc. sc \<notin> set (successful_scenes
                         (track (length todo) (fst (run_wave env (empty_args args todo) w3))))
                       \<or> with_empty_dirs (snd (run_wave env (empty_args args todo) w3))
                            (cli_assets args) sc) todo)"
    by simp
  then have "scenes (snd (empty_wave env args progress w3)) (split, vid) = None"
    unfolding w4 using rm by (rule remove_all_removes)
  moreover have "final (main env args sl w0) = snd (empty_wave env args progress w3)"
    using rep by simp
  ultimately show ?thesis by simp
qed

text \<open>Every task of a run has the assets of the command line and the counter 0, 1 or 2.\<close>

lemma tasks_of_main:
  assumes "(a, r) \<in> set (main_results (main env args sl w0))
             \<union> set (retry_results (main env args sl w0))
             \<union> set (repair_results (main env args sl w0))
             \<union> set (empty_results (main env args sl w0))"
  shows "arg_assets a = cli_assets args \<and> arg_redownload_attempt a \<in> {0, 1, 2}"
proof -
  define tasks where "tasks = main_args args sl"
  define progress where "progress = track (length sl) (fst (run_wave env tasks w0))"
  define fs where "fs = failed_scenes_of tasks progress"
  define w3 where "w3 = after_repair (main env args sl w0)"
  note rep = main_report [of env args sl w0, folded tasks_def, folded progress_def,
      folded fs_def, folded w3_def]
  have t: "arg_assets b = cli_assets args \<and> arg_redownload_attempt b = 0" if "b \<in> set tasks" for b
    using that by (auto simp: tasks_def main_args_def)
  from assms repair_wave_never_runs [of env args sl w0] consider
    (main) "(a, r) \<in> set (main_results (main env args sl w0))"
    | (retry) "(a, r) \<in> set (retry_results (main env args sl w0))"
    | (empty) "(a, r) \<in> set (empty_results (main env args sl w0))"
    by auto
  then show ?thesis
  proof cases
    case main
    then have "a \<in> set tasks" using rep run_wave_member [of a r env tasks w0] by simp
    with t show ?thesis by simp
  next
    case retry
    then have m: "(a, r) \<in> set (fst (retry_wave env fs (snd (run_wave env tasks w0))))"
      using rep by simp
    then have "fst (retry_wave env fs (snd (run_wave env tasks w0))) \<noteq> []" by auto
    from retry_wave_ran [OF this] m
    have "(a, r) \<in> set (fst (run_wave env
             (map (\<lambda>a. a\<lparr>arg_skip_download := False, arg_force_reprocess := True,
                           arg_redownload_attempt := 1\<rparr>) fs) (snd (run_wave env tasks w0))))"
      by simp
    then have "a \<in> set (map (\<lambda>a. a\<lparr>arg_skip_download := False, arg_force_reprocess := True,
                           arg_redownload_attempt := 1\<rparr>) fs)"
      by (rule run_wave_member)
    then obtain b where "b \<in> set fs" "a = b\<lparr>arg_skip_download := False,
        arg_force_reprocess := True, arg_redownload_attempt := 1\<rparr>"
      by auto
    moreover from this have "b \<in> set tasks"
      using failed_scenes_of_member [of b tasks progress] by (simp add: fs_def)
    ultimately show ?thesis using t [of b] by simp
  next
    case empty
    then have m: "(a, r) \<in> set (fst (empty_wave env args progress w3))" using rep by simp
    then have "fst (empty_wave env args progress w3) \<noteq> []" by auto
    from empty_wave_ran [OF this] obtain todo where
      "fst (empty_wave env args progress w3) = fst (run_wave env (empty_args args todo) w3)"
      by blast
    with m have "a \<in> set (empty_args args todo)"
      using run_wave_member [of a r env "empty_args args todo" w3] by simp
    then show ?thesis by (auto simp: empty_args_def)
  qed
qed

lemmas run_defs =
  main_def main_args_def shutdown_requested_def track_def update_all_def update_def
  init_tracker_def get_phase_def skip_phases_def removal_phases_def
  needing_redownload_def failed_scenes_of_def find_scene_arg_def retry_wave_def
  permanently_failed_def first_word_def repair_wave_def repair_args_def empty_wave_def
  empty_args_def with_empty_dirs_def remove_all_def check_scene_subfolders_empty_def
  keep_dirs_def example_cli_def default_assets_def
  process_defs classify_defs subsample_defs common_files_def file_set_def ten_pngs_def Let_def

lemma flaky_run:
  "map (\<lambda>(a, r). (scene_key a, arg_redownload_attempt a, success r, phase r))
       (main_results (main flaky_env example_cli [(''41069021'', ''Training'')] fresh_disk))
     = [((''Training'', ''41069021''), 0, False, Some ''download'')]
   \<and> map (\<lambda>(a, r). (scene_key a, arg_redownload_attempt a, success r, phase r))
       (retry_results (main flaky_env example_cli [(''41069021'', ''Training'')] fresh_disk))
     = [((''Training'', ''41069021''), 1, False, Some ''removed_missing_intrinsics'')]
   \<and> repair_tasks (main flaky_env example_cli [(''41069021'', ''Training'')] fresh_disk) = []
   \<and> repair_results (main flaky_env example_cli [(''41069021'', ''Training'')] fresh_disk) = []
   \<and> empty_results (main flaky_env example_cli [(''41069021'', ''Training'')] fresh_disk) = []
   \<and> scenes (final (main flaky_env example_cli [(''41069021'', ''Training'')] fresh_disk))
        (''Training'', ''41069021'') = None"
  by (simp add: run_defs flaky_env_def fresh_disk_def)

lemma hollow_run:
  "map (\<lambda>(a, r). (scene_key a, arg_redownload_attempt a, success r, phase r))
       (main_results (main hollow_env example_cli [(''41069021'', ''Training'')] fresh_disk))
     = [((''Training'', ''41069021''), 0, True, Some ''completed'')]
   \<and> retry_results (main hollow_env example_cli [(''41069021'', ''Training'')] fresh_disk) = []
   \<and> repair_results (main hollow_env example_cli [(''41069021'', ''Training'')] fresh_disk) = []
   \<and> scenes (after_repair (main hollow_env example_cli [(''41069021'', ''Training'')] fresh_disk))
        (''Training'', ''41069021'')
      = Some [(''highres_depth'', Dir []), (''ultrawide'', Dir []),
              (''ultrawide_intrinsics'', Dir [])]
   \<and> map (\<lambda>(a, r). (scene_key a, arg_redownload_attempt a, success r, phase r))
       (empty_results (main hollow_env example_cli [(''41069021'', ''Training'')] fresh_disk))
     = [((''Training'', ''41069021''), 2, False, Some ''redownload_failed'')]
   \<and> scenes (final (main hollow_env example_cli [(''41069021'', ''Training'')] fresh_disk))
        (''Training'', ''41069021'') = None"
  by (simp add: run_defs hollow_env_def fresh_disk_def)

text \<open>
  Claim C1 says that the intrinsics repair wave takes every scene for which an earlier
  wave returned the phase \<^verbatim>\<open>removed_missing_intrinsics\<close>. The code fills
  \<^verbatim>\<open>scenes_needing_redownload\<close> from the results of the main wave only, which runs
  with \<^verbatim>\<open>redownload_attempt = 0\<close> and so never returns that phase
  (\<open>repair_wave_never_runs\<close>); the retry wave, which can return it, is not looked at.
  In the run below the download of a scene fails in the main wave, and the forced
  retry brings depth and wide images but no intrinsics: the retry wave flags the scene,
  and the repair wave has no task.
\<close>

theorem repair_wave_misses_flagged_scene:
  "map (\<lambda>(a, r). (scene_key a, arg_redownload_attempt a, success r, phase r))
       (retry_results (main flaky_env example_cli [(''41069021'', ''Training'')] fresh_disk))
     = [((''Training'', ''41069021''), 1, False, Some ''removed_missing_intrinsics'')]
   \<and> repair_tasks (main flaky_env example_cli [(''41069021'', ''Training'')] fresh_disk) = []
   \<and> repair_results (main flaky_env example_cli [(''41069021'', ''Training'')] fresh_disk) = []"
  using flaky_run by simp

text \<open>
  Two more runs of the download command of \<open>flaky_env\<close>, in which the scene fails the
  download of the main wave and the forced retry: on a machine where the scene directory
  cannot be removed, and for a video id with a blank. The retry wave finds the scenes to
  delete by the first word of the entries of \<^verbatim>\<open>failed_processing\<close>, which for such an
  id is not the id. In both runs the two image directories that the retry has left are
  still there at the end.
\<close>

lemma stubborn_run:
  "map (\<lambda>(a, r). (scene_key a, arg_redownload_attempt a, success r, phase r))
       (main_results (main stubborn_env example_cli [(''41069021'', ''Training'')] fresh_disk))
     = [((''Training'', ''41069021''), 0, False, Some ''download'')]
   \<and> map (\<lambda>(a, r). (scene_key a, arg_redownload_attempt a, success r, phase r))
       (retry_results (main stubborn_env example_cli [(''41069021'', ''Training'')] fresh_disk))
     = [((''Training'', ''41069021''), 1, False, Some ''removed_missing_intrinsics'')]
   \<and> scenes (final (main stubborn_env example_cli [(''41069021'', ''Training'')] fresh_disk))
        (''Training'', ''41069021'')
      = Some [(''highres_depth'', Dir ten_pngs), (''ultrawide'', Dir ten_pngs)]"
  by (simp add: run_defs stubborn_env_def flaky_env_def fresh_disk_def)

lemma blank_run:
  "map (\<lambda>(a, r). (scene_key a, arg_redownload_attempt a, success r, phase r))
       (main_results (main flaky_env example_cli [(''4106 9021'', ''Training'')] fresh_disk))
     = [((''Training'', ''4106 9021''), 0, False, Some ''download'')]
   \<and> map (\<lambda>(a, r). (scene_key a, arg_redownload_attempt a, success r, phase r))
       (retry_results (main flaky_env example_cli [(''4106 9021'', ''Training'')] fresh_disk))
     = [((''Training'', ''4106 9021''), 1, False, Some ''removed_missing_intrinsics'')]
   \<and> scenes (final (main flaky_env example_cli [(''4106 9021'', ''Training'')] fresh_disk))
        (''Training'', ''4106 9021'')
      = Some [(''highres_depth'', Dir ten_pngs), (''ultrawide'', Dir ten_pngs)]"
  by (simp add: run_defs flaky_env_def fresh_disk_def)

text \<open>
  Claim C7, as stated, fails in both halves.

  \<^item> The download retry wave is not the only wave whose failures delete a scene: in the
    first run below the main wave completes a scene whose downloaded directories are
    empty, no retry takes place, the forced redownload of the last wave fails, and the
    scene directory is deleted.
  \<^item> A scene that fails the download of the main wave and the retry stays on disk when
    the removal of its directory fails, whose outcome \<^verbatim>\<open>main\<close> does not look at
    (second run), and when its video id, which is read from the scene list as it is,
    has a blank (third run).
\<close>

theorem failed_retry_counterexample:
  "retry_results (main hollow_env example_cli [(''41069021'', ''Training'')] fresh_disk) = []
   \<and> scenes (after_repair (main hollow_env example_cli [(''41069021'', ''Training'')] fresh_disk))
        (''Training'', ''41069021'')
      = Some [(''highres_depth'', Dir []), (''ultrawide'', Dir []),
              (''ultrawide_intrinsics'', Dir [])]
   \<and> map (\<lambda>(a, r). (scene_key a, arg_redownload_attempt a, success r, phase r))
       (empty_results (main hollow_env example_cli [(''41069021'', ''Training'')] fresh_disk))
     = [((''Training'', ''41069021''), 2, False, Some ''redownload_failed'')]
   \<and> scenes (final (main hollow_env example_cli [(''41069021'', ''Training'')] fresh_disk))
        (''Training'', ''41069021'') = None
   \<and> map (\<lambda>(a, r). (scene_key a, arg_redownload_attempt a, success r, phase r))
       (main_results (main stubborn_env example_cli [(''41069021'', ''Training'')] fresh_disk))
     = [((''Training'', ''41069021''), 0, False, Some ''download'')]
   \<and> map (\<lambda>(a, r). (scene_key a, arg_redownload_attempt a, success r, phase r))
       (retry_results (main stubborn_env example_cli [(''41069021'', ''Training'')] fresh_disk))
     = [((''Training'', ''41069021''), 1, False, Some ''removed_missing_intrinsics'')]
   \<and> scenes (final (main stubborn_env example_cli [(''41069021'', ''Training'')] fresh_disk))
        (''Training'', ''41069021'')
      = Some [(''highres_depth'', Dir ten_pngs), (''ultrawide'', Dir ten_pngs)]
   \<and> map (\<lambda>(a, r). (scene_key a, arg_redownload_attempt a, success r, phase r))
       (main_results (main flaky_env example_cli [(''4106 9021'', ''Training'')] fresh_disk))
     = [((''Training'', ''4106 9021''), 0, False, Some ''download'')]
   \<and> map (\<lambda>(a, r). (scene_key a, arg_redownload_attempt a, success r, phase r))
       (retry_results (main flaky_env example_cli [(''4106 9021'', ''Training'')] fresh_disk))
     = [((''Training'', ''4106 9021''), 1, False, Some ''removed_missing_intrinsics'')]
   \<and> scenes (final (main flaky_env example_cli [(''4106 9021'', ''Training'')] fresh_disk))
        (''Training'', ''4106 9021'')
      = Some [(''highres_depth'', Dir ten_pngs), (''ultrawide'', Dir ten_pngs)]"
  using hollow_run stubborn_run blank_run by simp

text \<open>
  Claim C7, amended, for a run in single process mode. Let the removal of the scene's
  directory not fail.

  \<^item> If the video id has no blank, the main wave result of the scene has the phase
    \<^verbatim>\<open>download\<close> and the retry wave returns a failure for the scene, then its
    directory is absent after the run.
  \<^item> The same holds for a scene for which the empty directory repair wave returns a
    result and no success: the retry wave is not the only wave whose failures delete
    the local copy.

  The scene list may name a scene more than once.
\<close>

theorem failed_retry_is_removed:
  assumes "\<not> rmtree_fails env (split, vid)"
  shows "(CHR '' '' \<notin> set vid
          \<and> (\<exists>a r. (a, r) \<in> set (main_results (main env args scene_list w0))
                 \<and> scene_key a = (split, vid) \<and> phase r = Some ''download'')
          \<and> (\<exists>a r. (a, r) \<in> set (retry_results (main env args scene_list w0))
                 \<and> scene_key a = (split, vid) \<and> \<not> success r)
          \<longrightarrow> scenes (final (main env args scene_list w0)) (split, vid) = None)
       \<and> ((\<exists>a r. (a, r) \<in> set (empty_results (main env args scene_list w0))
                 \<and> scene_key a = (split, vid))
          \<and> (\<forall>(a, r) \<in> set (empty_results (main env args scene_list w0)).
                 scene_key a = (split, vid) \<longrightarrow> \<not> success r)
          \<longrightarrow> scenes (final (main env args scene_list w0)) (split, vid) = None)"
proof (intro conjI impI)
  assume "CHR '' '' \<notin> set vid
          \<and> (\<exists>a r. (a, r) \<in> set (main_results (main env args scene_list w0))
                 \<and> scene_key a = (split, vid) \<and> phase r = Some ''download'')
          \<and> (\<exists>a r. (a, r) \<in> set (retry_results (main env args scene_list w0))
                 \<and> scene_key a = (split, vid) \<and> \<not> success r)"
  then obtain a2 r2 where sp: "CHR '' '' \<notin> set vid"
    and r: "(a2, r2) \<in> set (retry_results (main env args scene_list w0))"
      "scene_key a2 = (split, vid)" "\<not> success r2"
    by blast
  show "scenes (final (main env args scene_list w0)) (split, vid) = None"
    by (rule retry_failure_removed [OF sp assms r])
next
  assume "(\<exists>a r. (a, r) \<in> set (empty_results (main env args scene_list w0))
                 \<and> scene_key a = (split, vid))
          \<and> (\<forall>(a, r) \<in> set (empty_results (main env args scene_list w0)).
                 scene_key a = (split, vid) \<longrightarrow> \<not> success r)"
  then obtain a4 r4 where e: "(a4, r4) \<in> set (empty_results (main env args scene_list w0))"
      "scene_key a4 = (split, vid)"
    and f: "\<forall>(a, r) \<in> set (empty_results (main env args scene_list w0)).
                 scene_key a = (split, vid) \<longrightarrow> \<not> success r"
    by blast
  show "scenes (final (main env args scene_list w0)) (split, vid) = None"
    by (rule empty_failure_removed [OF assms e f])
qed

theorem failed_retry_is_removed_witness:
  "\<not> rmtree_fails flaky_env (''Training'', ''41069021'')
   \<and> CHR '' '' \<notin> set ''41069021''
   \<and> map (\<lambda>(a, r). (scene_key a, success r, phase r))
       (main_results (main flaky_env example_cli [(''41069021'', ''Training'')] fresh_disk))
     = [((''Training'', ''41069021''), False, Some ''download'')]
   \<and> map (\<lambda>(a, r). (scene_key a, success r, phase r))
       (retry_results (main flaky_env example_cli [(''41069021'', ''Training'')] fresh_disk))
     = [((''Training'', ''41069021''), False, Some ''removed_missing_intrinsics'')]
   \<and> scenes (final (main flaky_env example_cli [(''41069021'', ''Training'')] fresh_disk))
        (''Training'', ''41069021'') = None
   \<and> \<not> rmtree_fails hollow_env (''Training'', ''41069021'')
   \<and> map (\<lambda>(a, r). (scene_key a, success r, phase r))
       (empty_results (main hollow_env example_cli [(''41069021'', ''Training'')] fresh_disk))
     = [((''Training'', ''41069021''), False, Some ''redownload_failed'')]
   \<and> scenes (final (main hollow_env example_cli [(''41069021'', ''Training'')] fresh_disk))
        (''Training'', ''41069021'') = None"
proof -
  have single: "(\<exists>a r. (a, r) \<in> set rs \<and> scene_key a = k \<and> success r = b \<and> phase r = p)
                 \<and> (\<forall>(a, r) \<in> set rs. scene_key a = k \<longrightarrow> success r = b)
                 \<and> map (\<lambda>(a, r). (scene_key a, success r, phase r)) rs = [(k, b, p)]"
    if "map (\<lambda>(a, r). (scene_key a, arg_redownload_attempt a, success r, phase r)) rs
          = [(k, n, b, p)]"
    for rs :: "(scene_args \<times> result) list" and k n b p
    using that by (cases rs) auto
  have f: "\<not> rmtree_fails flaky_env (''Training'', ''41069021'')"
    by (simp add: flaky_env_def)
  have h: "\<not> rmtree_fails hollow_env (''Training'', ''41069021'')"
    by (simp add: hollow_env_def)
  have b: "CHR '' '' \<notin> set ''41069021''" by simp
  note m = single [OF flaky_run [THEN conjunct1]]
  note r = single [OF flaky_run [THEN conjunct2, THEN conjunct1]]
  note e = single [OF hollow_run [THEN conjunct2, THEN conjunct2, THEN conjunct2,
                                  THEN conjunct2, THEN conjunct1]]
  have A: "scenes (final (main flaky_env example_cli [(''41069021'', ''Training'')] fresh_disk))
             (''Training'', ''41069021'') = None"
    using failed_retry_is_removed [OF f, of example_cli "[(''41069021'', ''Training'')]" fresh_disk]
      b m r by blast
  have B: "scenes (final (main hollow_env example_cli [(''41069021'', ''Training'')] fresh_disk))
             (''Training'', ''41069021'') = None"
    using failed_retry_is_removed [OF h, of example_cli "[(''41069021'', ''Training'')]" fresh_disk]
      e by blast
  show ?thesis
    using f h b m r e A B by simp
qed

end
